theory Spec2Isabelle
  imports Main "HOL-Library.Word"
begin

unbundle bit_operations_syntax

section \<open>Data model of the POV display driver (Core/Src/POV\_Display.c)\<close>

type_synonym u8 = "8 word"
type_synonym u16 = "16 word"
type_synonym u32 = "32 word"

text \<open>
  The build-time constants \<open>RESOLUTION\<close>, \<open>PIXELS\<close>, \<open>FONTSIZE\<close> and the table
  \<open>POV_Font\<close> come from the header \<open>POV_Display.h\<close>, which is not among the source files.
  They are parameters of every function below. The font table is an opaque lookup
  from the row index \<open>Chr - 32\<close> (a C \<open>int\<close>) and the column index to a column value.
\<close>

record config =
  RESOLUTION :: nat
  PIXELS :: nat
  FONTSIZE :: nat
  POV_Font :: "int \<Rightarrow> nat \<Rightarrow> u8"

text \<open>
  Modelled from the spec: the macros \<open>ON\<close> and \<open>OFF\<close> of the missing header; a bit of a
  column is the state of a row, 1 = ON and 0 = OFF.
\<close>

definition ON :: u8 where
  "ON = 1"

definition OFF :: u8 where
  "OFF = 0"

text \<open>
  The configurations the code is written for: the loop counters and the column indices are
  \<open>uint8_t\<close> (a loop \<open>for (; i < RESOLUTION; i++)\<close> over a \<open>uint8_t\<close> ends only if
  \<open>RESOLUTION \<le> 255\<close>), a column is a \<open>uint8_t\<close> of row bits, \<open>PovDisplayData\<close> has
  \<open>RESOLUTION\<close> elements, and \<open>CursPos % POVDigits\<close> needs at least one character slot.
\<close>

definition config_ok :: "config \<Rightarrow> bool" where
  "config_ok cfg =
     (0 < RESOLUTION cfg \<and> RESOLUTION cfg \<le> 255 \<and>
      0 < PIXELS cfg \<and> PIXELS cfg \<le> 8 \<and>
      FONTSIZE cfg + 1 \<le> RESOLUTION cfg)"

text \<open>\<open>uint8_t POVDigits = (RESOLUTION / (FONTSIZE + 1));\<close> is never assigned again.\<close>

definition POVDigits :: "config \<Rightarrow> u8" where
  "POVDigits cfg = of_nat (RESOLUTION cfg div (FONTSIZE cfg + 1))"

datatype tim_instance = TIM2 | TIM3 | TIM_other

text \<open>
  The globals of the file, and the hardware the handlers touch: the counter, prescaler and
  capture register of TIM2, the counter and auto-reload register of TIM3, the output line of
  each pixel row (\<open>POV_Pins\<close>, by row index) and the debug pin PC13.
\<close>

record pov =
  TimeDifference :: u32
  Capture :: u16
  ICU_TIM2_OVC :: u16
  PixelsCounter :: u8
  PovDisplayData :: "u8 list"
  CursPos :: u8
  PixelPos :: u8
  sysClockFreq :: u8
  TIM2_CNT :: u32
  TIM2_PSC :: u32
  TIM2_CCR1 :: u32
  TIM3_CNT :: u32
  TIM3_ARR :: u32
  POV_lines :: "nat \<Rightarrow> bool"
  GPIOC_13 :: bool

definition frame_ok :: "config \<Rightarrow> pov \<Rightarrow> bool" where
  "frame_ok cfg s = (length (PovDisplayData s) = RESOLUTION cfg)"

section \<open>Framebuffer operations\<close>

text \<open>
  \<open>POV_Clear\<close> and \<open>POV_InvertDisplay\<close> run
  \<open>for (uint8_t PixelsCount = 0; PixelsCount < RESOLUTION; PixelsCount++)\<close>. The loop is
  modelled as a \<open>fold\<close> over the indices \<open>0, \<dots>, RESOLUTION - 1\<close>. This is what the source
  does only when \<open>RESOLUTION \<le> 255\<close>: with \<open>RESOLUTION \<ge> 256\<close> the 8-bit counter wraps from
  255 to 0 and the loop of the source never ends. The two definitions therefore stand for
  the source under \<open>config_ok\<close> only, and the theorems about them assume it.
\<close>

definition POV_Clear :: "config \<Rightarrow> pov \<Rightarrow> pov" where
  "POV_Clear cfg s =
     s\<lparr>PovDisplayData := fold (\<lambda>i d. d[i := 0]) [0..<RESOLUTION cfg] (PovDisplayData s),
       PixelPos := 0, CursPos := 0\<rparr>"

definition POV_SetCursor :: "config \<Rightarrow> u8 \<Rightarrow> pov \<Rightarrow> pov" where
  "POV_SetCursor cfg Pos s =
     (if RESOLUTION cfg div (FONTSIZE cfg + 1) > unat Pos
      then s\<lparr>CursPos := Pos, PixelPos := of_nat (unat Pos * (FONTSIZE cfg + 1))\<rparr>
      else s)"

definition POV_WritePixel :: "config \<Rightarrow> u8 \<Rightarrow> u8 \<Rightarrow> u8 \<Rightarrow> pov \<Rightarrow> pov" where
  "POV_WritePixel cfg Row Column State s =
     (if (State = ON \<or> State = OFF) \<and> PIXELS cfg > unat Row \<and> RESOLUTION cfg > unat Column
      then (if State = ON
            then s\<lparr>PovDisplayData := (PovDisplayData s)
                   [unat Column := PovDisplayData s ! unat Column OR push_bit (unat Row) 1]\<rparr>
            else s\<lparr>PovDisplayData := (PovDisplayData s)
                   [unat Column := PovDisplayData s ! unat Column AND NOT (push_bit (unat Row) 1)]\<rparr>)
      else s)"

definition POV_ReadPixel :: "config \<Rightarrow> u8 \<Rightarrow> u8 \<Rightarrow> pov \<Rightarrow> u8" where
  "POV_ReadPixel cfg Row Column s =
     (if unat Column \<ge> RESOLUTION cfg \<or> unat Row \<ge> PIXELS cfg then 0
      else drop_bit (unat Row) (PovDisplayData s ! unat Column) AND ON)"

definition POV_WriteColumn :: "config \<Rightarrow> u8 \<Rightarrow> u8 \<Rightarrow> pov \<Rightarrow> pov" where
  "POV_WriteColumn cfg Column Val s =
     (if unat Column \<ge> RESOLUTION cfg then s
      else s\<lparr>PovDisplayData := (PovDisplayData s)[unat Column := Val]\<rparr>)"

definition POV_ReadColumn :: "config \<Rightarrow> u8 \<Rightarrow> pov \<Rightarrow> u8" where
  "POV_ReadColumn cfg Column s =
     (if unat Column \<ge> RESOLUTION cfg then 0 else PovDisplayData s ! unat Column)"

definition POV_InvertDisplay :: "config \<Rightarrow> pov \<Rightarrow> pov" where
  "POV_InvertDisplay cfg s =
     s\<lparr>PovDisplayData :=
         fold (\<lambda>i d. d[i := NOT (d ! i)]) [0..<RESOLUTION cfg] (PovDisplayData s)\<rparr>"

section \<open>Text output\<close>

text \<open>
  \<open>POV_WriteChar\<close>: the loop \<open>for (; PixelsCount < FONTSIZE; PixelsCount++)\<close> stores one
  glyph column at \<open>PixelPos\<close> and steps \<open>PixelPos\<close> modulo \<open>RESOLUTION\<close>. A store beyond
  the \<open>RESOLUTION\<close> elements of \<open>PovDisplayData\<close>, and \<open>% POVDigits\<close> with
  \<open>POVDigits = 0\<close>, are undefined behaviour in C: the result is \<open>None\<close>.
\<close>

fun POV_WriteChar_loop :: "config \<Rightarrow> u8 \<Rightarrow> nat list \<Rightarrow> u8 list \<Rightarrow> u8 \<Rightarrow> (u8 list \<times> u8) option" where
  "POV_WriteChar_loop cfg Chr [] d p = Some (d, p)"
| "POV_WriteChar_loop cfg Chr (k # ks) d p =
     (if unat p < RESOLUTION cfg
      then POV_WriteChar_loop cfg Chr ks
             (d[unat p := POV_Font cfg (uint Chr - 32) k])
             (of_nat ((unat p + 1) mod RESOLUTION cfg))
      else None)"

definition POV_WriteChar :: "config \<Rightarrow> u8 \<Rightarrow> pov \<Rightarrow> pov option" where
  "POV_WriteChar cfg Chr s =
     (case POV_WriteChar_loop cfg Chr [0..<FONTSIZE cfg] (PovDisplayData s)
             (of_nat (unat (CursPos s) * (FONTSIZE cfg + 1))) of
        None \<Rightarrow> None
      | Some (d, p) \<Rightarrow>
          if unat p < RESOLUTION cfg \<and> POVDigits cfg \<noteq> 0
          then Some (s\<lparr>PovDisplayData := d[unat p := 0], PixelPos := p,
                       CursPos := of_nat ((unat (CursPos s) + 1) mod unat (POVDigits cfg))\<rparr>)
          else None)"

definition POV_WriteCharInPos :: "config \<Rightarrow> u8 \<Rightarrow> u8 \<Rightarrow> pov \<Rightarrow> pov option" where
  "POV_WriteCharInPos cfg Chr Pos s =
     (if RESOLUTION cfg div (FONTSIZE cfg + 1) > unat Pos
      then POV_WriteChar cfg Chr (POV_SetCursor cfg Pos s)
      else Some s)"

text \<open>
  \<open>POV_WriteString\<close>: \<open>Str\<close> is the content of the array the pointer refers to, with its
  terminating zero: \<open>"AB"\<close> is \<open>[65, 66, 0]\<close>. Running off the array before a zero is
  found is undefined behaviour: \<open>None\<close>.
\<close>

fun POV_WriteString :: "config \<Rightarrow> u8 list \<Rightarrow> pov \<Rightarrow> pov option" where
  "POV_WriteString cfg [] s = None"
| "POV_WriteString cfg (c # cs) s =
     (if c = 0 then Some s
      else (case POV_WriteChar cfg c s of
              None \<Rightarrow> None
            | Some s' \<Rightarrow> POV_WriteString cfg cs s'))"

definition POV_WriteStringInPos :: "config \<Rightarrow> u8 list \<Rightarrow> u8 \<Rightarrow> pov \<Rightarrow> pov option" where
  "POV_WriteStringInPos cfg Str Pos s = POV_WriteString cfg Str (POV_SetCursor cfg Pos s)"

section \<open>Bitmaps, frames and lines\<close>

text \<open>
  \<open>POV_DrawBitmap\<close>: \<open>MyBitmap\<close> is \<open>None\<close> for the null pointer, else the array it
  points to; reading beyond that array is undefined behaviour: \<open>None\<close>.
\<close>

fun POV_DrawBitmap_loop :: "u8 list \<Rightarrow> nat list \<Rightarrow> u8 list \<Rightarrow> u8 list option" where
  "POV_DrawBitmap_loop bm [] d = Some d"
| "POV_DrawBitmap_loop bm (i # js) d =
     (if i < length bm then POV_DrawBitmap_loop bm js (d[i := bm ! i]) else None)"

definition POV_DrawBitmap :: "config \<Rightarrow> u8 list option \<Rightarrow> u8 \<Rightarrow> pov \<Rightarrow> pov option" where
  "POV_DrawBitmap cfg MyBitmap BitmapSize s =
     (case MyBitmap of
        None \<Rightarrow> Some s
      | Some bm \<Rightarrow>
          if unat BitmapSize \<le> RESOLUTION cfg
          then (case POV_DrawBitmap_loop bm [0..<unat BitmapSize] (PovDisplayData s) of
                  None \<Rightarrow> None
                | Some d \<Rightarrow> Some (s\<lparr>PovDisplayData := d\<rparr>))
          else Some s)"

text \<open>
  \<open>POV_DrawFrame\<close>: the inner loop over the rows \<open>Row1 .. Row2\<close> of one column, the body
  of the outer loop for one column, and the outer loop over the columns
  \<open>Column1 .. Column2\<close> (empty when \<open>Column1 > Column2\<close>).
\<close>

definition POV_DrawFrame_rows :: "nat \<Rightarrow> nat \<Rightarrow> nat \<Rightarrow> u8 list \<Rightarrow> u8 list" where
  "POV_DrawFrame_rows c r1 r2 d = fold (\<lambda>r d. d[c := d ! c OR push_bit r 1]) [r1..<r2 + 1] d"

definition POV_DrawFrame_column :: "nat \<Rightarrow> nat \<Rightarrow> nat \<Rightarrow> nat \<Rightarrow> nat \<Rightarrow> u8 list \<Rightarrow> u8 list" where
  "POV_DrawFrame_column c1 r1 r2 c2 c d =
     (let d1 = d[c := d ! c OR (push_bit r1 1 OR push_bit r2 1)]
      in if c = c1 \<or> c = c2 then POV_DrawFrame_rows c r1 r2 d1 else d1)"

definition POV_DrawFrame :: "config \<Rightarrow> u8 \<Rightarrow> u8 \<Rightarrow> u8 \<Rightarrow> u8 \<Rightarrow> pov \<Rightarrow> pov" where
  "POV_DrawFrame cfg Column1 Row1 Row2 Column2 s =
     (if PIXELS cfg > unat Row2 \<and> unat Row2 > unat Row1 \<and>
         RESOLUTION cfg > unat Column1 \<and> RESOLUTION cfg > unat Column2
      then s\<lparr>PovDisplayData :=
               fold (POV_DrawFrame_column (unat Column1) (unat Row1) (unat Row2) (unat Column2))
                 [unat Column1..<unat Column2 + 1] (PovDisplayData s)\<rparr>
      else s)"

text \<open>
  \<open>POV_DrawLine\<close> keeps \<open>dx\<close>, \<open>sx\<close>, \<open>dy\<close>, \<open>sy\<close>, \<open>err\<close> and \<open>e2\<close> in \<open>int8_t\<close>. They
  are integers here, and every store converts with \<open>int8_t\<close> (the value modulo 256 in
  \<open>-128..127\<close>, as the compilers for this target do). The operands of \<open>+\<close>, \<open>-\<close>, \<open>/\<close> and
  of the comparisons are promoted to \<open>int\<close>, where nothing of this size overflows; \<open>/\<close>
  truncates towards zero. \<open>Column1 += sx\<close> stores modulo 256 in the \<open>uint8_t\<close> parameter.
  The loop \<open>while (1)\<close> has no bound: a run that never reaches the \<open>break\<close> is \<open>None\<close>.
\<close>

definition int8_t :: "int \<Rightarrow> int" where
  "int8_t x = (x + 128) mod 256 - 128"

definition c_div :: "int \<Rightarrow> int \<Rightarrow> int" where
  "c_div a b = (if (a < 0) = (b < 0) then \<bar>a\<bar> div \<bar>b\<bar> else - (\<bar>a\<bar> div \<bar>b\<bar>))"

partial_function (option) POV_DrawLine_loop ::
  "config \<Rightarrow> u8 \<Rightarrow> u8 \<Rightarrow> int \<Rightarrow> int \<Rightarrow> int \<Rightarrow> int \<Rightarrow> u8 \<Rightarrow> u8 \<Rightarrow> int \<Rightarrow> pov \<Rightarrow> pov option" where
  "POV_DrawLine_loop cfg Column2 Row2 dx sx dy sy Column1 Row1 err s =
     (if Row1 = Row2 \<and> Column1 = Column2
      then Some (POV_WritePixel cfg Row1 Column1 ON s)
      else if err > - dx
      then (if err < dy
            then POV_DrawLine_loop cfg Column2 Row2 dx sx dy sy
                   (word_of_int (uint Column1 + sx)) (word_of_int (uint Row1 + sy))
                   (int8_t (int8_t (err - dy) + dx)) (POV_WritePixel cfg Row1 Column1 ON s)
            else POV_DrawLine_loop cfg Column2 Row2 dx sx dy sy
                   (word_of_int (uint Column1 + sx)) Row1
                   (int8_t (err - dy)) (POV_WritePixel cfg Row1 Column1 ON s))
      else (if err < dy
            then POV_DrawLine_loop cfg Column2 Row2 dx sx dy sy
                   Column1 (word_of_int (uint Row1 + sy))
                   (int8_t (err + dx)) (POV_WritePixel cfg Row1 Column1 ON s)
            else POV_DrawLine_loop cfg Column2 Row2 dx sx dy sy
                   Column1 Row1 err (POV_WritePixel cfg Row1 Column1 ON s)))"

definition POV_DrawLine :: "config \<Rightarrow> u8 \<Rightarrow> u8 \<Rightarrow> u8 \<Rightarrow> u8 \<Rightarrow> pov \<Rightarrow> pov option" where
  "POV_DrawLine cfg Column1 Row1 Column2 Row2 s =
     (if unat Row1 \<ge> PIXELS cfg \<or> unat Column1 \<ge> RESOLUTION cfg \<or>
         unat Row2 \<ge> PIXELS cfg \<or> unat Column2 \<ge> RESOLUTION cfg
      then Some s
      else
        (let dx = int8_t \<bar>uint Column2 - uint Column1\<bar>;
             sx = (if Column1 < Column2 then 1 else - 1);
             dy = int8_t \<bar>uint Row2 - uint Row1\<bar>;
             sy = (if Row1 < Row2 then 1 else - 1);
             err = int8_t (c_div (if dx > dy then dx else - dy) 2)
         in POV_DrawLine_loop cfg Column2 Row2 dx sx dy sy Column1 Row1 err s))"

definition POV_DrawTriangle ::
  "config \<Rightarrow> u8 \<Rightarrow> u8 \<Rightarrow> u8 \<Rightarrow> u8 \<Rightarrow> u8 \<Rightarrow> u8 \<Rightarrow> pov \<Rightarrow> pov option" where
  "POV_DrawTriangle cfg Column1 Row1 Column2 Row2 Column3 Row3 s =
     (case POV_DrawLine cfg Column1 Row1 Column2 Row2 s of
        None \<Rightarrow> None
      | Some s1 \<Rightarrow>
          (case POV_DrawLine cfg Column2 Row2 Column3 Row3 s1 of
             None \<Rightarrow> None
           | Some s2 \<Rightarrow> POV_DrawLine cfg Column3 Row3 Column1 Row1 s2))"

section \<open>Timers and interrupt handlers\<close>

text \<open>
  \<open>POV_IntervalsDisplay\<close> drives the line of row \<open>i\<close> high iff
  \<open>valueToPresent & (1 << i)\<close> is not zero, for every \<open>i < PIXELS\<close>.
\<close>

definition POV_IntervalsDisplay :: "config \<Rightarrow> u8 \<Rightarrow> (nat \<Rightarrow> bool) \<Rightarrow> (nat \<Rightarrow> bool)" where
  "POV_IntervalsDisplay cfg valueToPresent ls =
     fold (\<lambda>i l. l(i := (valueToPresent AND push_bit i 1 \<noteq> 0))) [0..<PIXELS cfg] ls"

text \<open>
  \<open>setTIM3InterruptPeriod\<close>: the product and the subtraction are computed in \<open>int\<close> and
  the result is stored in a \<open>uint16_t\<close>.
\<close>

definition setTIM3InterruptPeriod :: "u16 \<Rightarrow> pov \<Rightarrow> pov" where
  "setTIM3InterruptPeriod desiredPeriodMicroseconds s =
     (let autoReloadValue =
            (word_of_int (uint desiredPeriodMicroseconds * uint (sysClockFreq s) - 1) :: u16)
      in s\<lparr>TIM3_CNT := 0, TIM3_ARR := ucast autoReloadValue\<rparr>)"

text \<open>
  The static initialisation of the globals (zero, but for the initialisers written in the
  file), and \<open>POV_Init\<close>; \<open>SysClock\<close> is what \<open>HAL_RCC_GetSysClockFreq\<close> returns.
\<close>

definition startup :: "config \<Rightarrow> pov" where
  "startup cfg =
     \<lparr>TimeDifference = 0, Capture = 0, ICU_TIM2_OVC = 0, PixelsCounter = 0,
      PovDisplayData = replicate (RESOLUTION cfg) 0, CursPos = 0, PixelPos = 0,
      sysClockFreq = 0, TIM2_CNT = 0, TIM2_PSC = 0, TIM2_CCR1 = 0, TIM3_CNT = 0,
      TIM3_ARR = 0, POV_lines = (\<lambda>i. False), GPIOC_13 = False\<rparr>"

definition POV_Init :: "u32 \<Rightarrow> pov \<Rightarrow> pov" where
  "POV_Init SysClock s =
     (let f = (ucast (SysClock div 1000000) :: u8)
      in s\<lparr>sysClockFreq := f, TIM2_PSC := word_of_int (uint f - 1),
           CursPos := 0, PixelPos := 0, PixelsCounter := 0\<rparr>)"

definition HAL_TIM_PeriodElapsedCallback :: "config \<Rightarrow> tim_instance \<Rightarrow> pov \<Rightarrow> pov" where
  "HAL_TIM_PeriodElapsedCallback cfg Instance s =
     (case Instance of
        TIM3 \<Rightarrow>
          (let s1 = s\<lparr>PixelsCounter := PixelsCounter s + 1\<rparr>
           in if unat (PixelsCounter s1) < RESOLUTION cfg
              then s1\<lparr>POV_lines :=
                        POV_IntervalsDisplay cfg
                          (PovDisplayData s1 ! unat (PixelsCounter s1)) (POV_lines s1),
                      GPIOC_13 := \<not> GPIOC_13 s1\<rparr>
              else s1)
      | TIM2 \<Rightarrow> s\<lparr>ICU_TIM2_OVC := ICU_TIM2_OVC s + 1\<rparr>
      | TIM_other \<Rightarrow> s)"

text \<open>
  \<open>HAL_TIM_IC_CaptureCallback\<close>: \<open>HAL_TIM_ReadCapturedValue\<close> returns the capture register
  of channel 1, stored in the \<open>uint16_t Capture\<close>; \<open>TimeDifference\<close> and the division by
  \<open>RESOLUTION\<close> are \<open>uint32_t\<close>, and \<open>Period\<close> is the quotient cast to \<open>uint16_t\<close>.
\<close>

definition HAL_TIM_IC_CaptureCallback :: "config \<Rightarrow> tim_instance \<Rightarrow> pov \<Rightarrow> pov" where
  "HAL_TIM_IC_CaptureCallback cfg Instance s =
     (if Instance = TIM2
      then
        (let s1 = s\<lparr>PixelsCounter := 0\<rparr>;
             s2 = s1\<lparr>POV_lines :=
                       POV_IntervalsDisplay cfg
                         (PovDisplayData s1 ! unat (PixelsCounter s1)) (POV_lines s1)\<rparr>;
             s3 = s2\<lparr>Capture := ucast (TIM2_CCR1 s2)\<rparr>;
             s4 = s3\<lparr>TimeDifference :=
                       ucast (Capture s3) + ucast (ICU_TIM2_OVC s3) * 65536\<rparr>;
             Period = (ucast (TimeDifference s4 div of_nat (RESOLUTION cfg)) :: u16);
             s5 = setTIM3InterruptPeriod Period s4
         in s5\<lparr>ICU_TIM2_OVC := 0, TIM2_CNT := 0\<rparr>)
      else s)"

section \<open>Properties of states\<close>

text \<open>The invariant of the cursor: the slot is below the slot count.\<close>

definition cursor_ok :: "config \<Rightarrow> pov \<Rightarrow> bool" where
  "cursor_ok cfg s = (unat (CursPos s) < RESOLUTION cfg div (FONTSIZE cfg + 1))"

text \<open>
  The elapsed ticks \<open>E\<close> of a reference event: the captured value as the \<open>uint16_t\<close>
  \<open>Capture\<close> holds it, plus the overflow tally times the counter modulus.
\<close>

definition elapsed_ticks :: "pov \<Rightarrow> nat" where
  "elapsed_ticks s = unat (ucast (TIM2_CCR1 s) :: u16) + unat (ICU_TIM2_OVC s) * 65536"

text \<open>No pixel is cleared from \<open>s\<close> to \<open>s'\<close>, and only the framebuffer changes.\<close>

definition pixels_kept :: "pov \<Rightarrow> pov \<Rightarrow> bool" where
  "pixels_kept s s' =
     (s' = s\<lparr>PovDisplayData := PovDisplayData s'\<rparr> \<and>
      length (PovDisplayData s') = length (PovDisplayData s) \<and>
      (\<forall>c r. bit (PovDisplayData s ! c) r \<longrightarrow> bit (PovDisplayData s' ! c) r))"

text \<open>
  The invariant of the loop of \<open>POV_DrawLine\<close> when \<open>dx\<close> and \<open>dy\<close> fit \<open>int8_t\<close>:
  \<open>a\<close> columns and \<open>b\<close> rows remain to the endpoint, in the directions \<open>sx\<close> and \<open>sy\<close>,
  and \<open>err\<close> is the initial error plus \<open>a * dy - b * dx\<close>, within the band of the
  driving axis.
\<close>

definition line_inv ::
  "u8 \<Rightarrow> u8 \<Rightarrow> int \<Rightarrow> int \<Rightarrow> int \<Rightarrow> int \<Rightarrow> u8 \<Rightarrow> u8 \<Rightarrow> int \<Rightarrow> nat \<Rightarrow> nat \<Rightarrow> bool" where
  "line_inv Column2 Row2 dx sx dy sy Column1 Row1 err a b =
     ((sx = 1 \<or> sx = - 1) \<and> (sy = 1 \<or> sy = - 1) \<and>
      0 \<le> dx \<and> dx \<le> 127 \<and> 0 \<le> dy \<and> dy \<le> 127 \<and>
      uint Column2 - uint Column1 = sx * int a \<and> uint Row2 - uint Row1 = sy * int b \<and>
      int a \<le> dx \<and> int b \<le> dy \<and>
      err = (if dx > dy then dx div 2 else - (dy div 2)) + int a * dy - int b * dx \<and>
      (if dx > dy then 0 \<le> err \<and> err < dx else (- dy < err \<or> dy = 0) \<and> err \<le> 0))"

section \<open>Concrete configurations and inputs\<close>

text \<open>
  A font table whose row \<open>c\<close> has the columns \<open>c, c + 1, ..\<close>; displays of 12 columns
  (two character slots), of 8 columns (one slot) and of 255 columns; states of the
  12-column display with every pixel ON, at a reference event after 13 overflows and after
  one, in mid sweep and at the last column.
\<close>

definition font0 :: "int \<Rightarrow> nat \<Rightarrow> u8" where
  "font0 c k = word_of_int (c + int k)"

definition cfg12 :: config where
  "cfg12 = \<lparr>RESOLUTION = 12, PIXELS = 8, FONTSIZE = 5, POV_Font = font0\<rparr>"

definition cfg8 :: config where
  "cfg8 = \<lparr>RESOLUTION = 8, PIXELS = 8, FONTSIZE = 5, POV_Font = font0\<rparr>"

definition cfg255 :: config where
  "cfg255 = \<lparr>RESOLUTION = 255, PIXELS = 8, FONTSIZE = 5, POV_Font = font0\<rparr>"

definition lit12 :: pov where
  "lit12 = (startup cfg12)\<lparr>PovDisplayData := replicate 12 255\<rparr>"

definition slow12 :: pov where
  "slow12 = lit12\<lparr>sysClockFreq := 1, ICU_TIM2_OVC := 13, TIM2_CCR1 := 7\<rparr>"

definition fast12 :: pov where
  "fast12 = lit12\<lparr>sysClockFreq := 1, ICU_TIM2_OVC := 1, TIM2_CCR1 := 7\<rparr>"

definition sweep12 :: pov where
  "sweep12 = lit12\<lparr>PixelsCounter := 2\<rparr>"

definition parked12 :: pov where
  "parked12 = lit12\<lparr>PixelsCounter := 11\<rparr>"

section \<open>Facts about the concrete inputs\<close>

lemma replicate12: "replicate 12 x = [x, x, x, x, x, x, x, x, x, x, x, x]"
  by (simp add: eval_nat_numeral)

lemma cfg12_ok: "config_ok cfg12"
  by (simp add: config_ok_def cfg12_def)

lemma cfg8_ok: "config_ok cfg8"
  by (simp add: config_ok_def cfg8_def)

lemma cfg255_ok: "config_ok cfg255"
  by (simp add: config_ok_def cfg255_def)

lemma startup_frame_ok: "frame_ok cfg (startup cfg)"
  by (simp add: frame_ok_def startup_def)

lemma lit12_frame_ok: "frame_ok cfg12 lit12"
  by (simp add: frame_ok_def lit12_def cfg12_def)

section \<open>Inverting the display\<close>

lemma invert_loop_length:
  "length (fold (\<lambda>i d. d[i := NOT (d ! i)]) [0..<n] d) = length (d::u8 list)"
  by (induction n) simp_all

lemma invert_loop_nth:
  "fold (\<lambda>i d. d[i := NOT (d ! i)]) [0..<n] d ! k =
     (if k < n \<and> k < length d then NOT (d ! k) else (d::u8 list) ! k)"
proof (induction n)
  case 0
  show ?case by simp
next
  case (Suc n)
  show ?case
  proof (cases "k = n")
    case True
    then show ?thesis using Suc
      by (cases "n < length d") (simp_all add: invert_loop_length list_update_beyond)
  next
    case False
    then show ?thesis using Suc by (auto simp: nth_list_update)
  qed
qed

lemma invert_loop_twice:
  "fold (\<lambda>i d. d[i := NOT (d ! i)]) [0..<n]
     (fold (\<lambda>i d. d[i := NOT (d ! i)]) [0..<n] d) = (d::u8 list)"
  by (rule nth_equalityI) (simp_all add: invert_loop_length invert_loop_nth)

text \<open>
  C8: in a configuration the code is written for (in particular \<open>RESOLUTION \<le> 255\<close>, so
  that the \<open>uint8_t\<close> counter of the loop reaches \<open>RESOLUTION\<close> and the loop ends), for
  every framebuffer contents, \<open>POV_InvertDisplay\<close> applied twice gives back the original
  state, column for column (and nothing else of the state changes).
\<close>

theorem invert_twice_restores:
  assumes "config_ok cfg"
  shows "POV_InvertDisplay cfg (POV_InvertDisplay cfg s) = s"
  by (simp add: POV_InvertDisplay_def invert_loop_twice)

theorem invert_twice_restores_witness:
  "config_ok cfg12 \<and>
   PovDisplayData lit12 = [255, 255, 255, 255, 255, 255, 255, 255, 255, 255, 255, 255] \<and>
   PovDisplayData (POV_InvertDisplay cfg12 lit12) = [0, 0, 0, 0, 0, 0, 0, 0, 0, 0, 0, 0] \<and>
   POV_InvertDisplay cfg12 (POV_InvertDisplay cfg12 lit12) = lit12"
  using invert_twice_restores [OF cfg12_ok, of lit12] cfg12_ok
  by (simp add: POV_InvertDisplay_def cfg12_def lit12_def replicate12 upt_rec [of 0 12]
    upt_rec [of "Suc n" 12 for n])

section \<open>Pixels\<close>

lemma pixel_bit_on: "n < 8 \<Longrightarrow> drop_bit n ((x::u8) OR push_bit n 1) AND 1 = 1"
  by (rule bit_word_eqI) (auto simp: bit_simps)

lemma pixel_bit_off: "n < 8 \<Longrightarrow> drop_bit n ((x::u8) AND NOT (push_bit n 1)) AND 1 = 0"
  by (rule bit_word_eqI) (auto simp: bit_simps)

lemma pixel_bit_on_simp:
  "n < 8 \<Longrightarrow> (drop_bit n (x::u8) OR drop_bit n (2 ^ n)) AND 1 = 1"
  using pixel_bit_on [of n x] by simp

lemma pixel_bit_off_simp:
  "n < 8 \<Longrightarrow> (drop_bit n (x::u8) AND drop_bit n (NOT (2 ^ n))) AND 1 = 0"
  using pixel_bit_off [of n x] by simp

text \<open>
  C3: in a configuration the code is written for and with a framebuffer of \<open>RESOLUTION\<close>
  columns, for every \<open>Row < PIXELS\<close>, \<open>Column < RESOLUTION\<close> and \<open>State\<close> among \<open>ON\<close>
  and \<open>OFF\<close>, \<open>POV_ReadPixel\<close> after \<open>POV_WritePixel\<close> at the same coordinates returns
  \<open>State\<close>; for every out-of-range pair of coordinates \<open>POV_ReadPixel\<close> returns 0 and
  \<open>POV_WritePixel\<close> leaves the whole state, and so the framebuffer, unchanged.
\<close>

theorem write_then_read_pixel:
  assumes "config_ok cfg" and "frame_ok cfg s"
  shows "(unat Row < PIXELS cfg \<and> unat Column < RESOLUTION cfg \<and> (State = ON \<or> State = OFF) \<longrightarrow>
            POV_ReadPixel cfg Row Column (POV_WritePixel cfg Row Column State s) = State) \<and>
         (\<not> (unat Row < PIXELS cfg \<and> unat Column < RESOLUTION cfg) \<longrightarrow>
            POV_ReadPixel cfg Row Column s = 0 \<and> POV_WritePixel cfg Row Column State s = s)"
proof -
  have r8: "unat Row < PIXELS cfg \<Longrightarrow> unat Row < 8"
    using assms(1) by (simp add: config_ok_def)
  have len: "length (PovDisplayData s) = RESOLUTION cfg"
    using assms(2) by (simp add: frame_ok_def)
  show ?thesis
    using r8 len
    by (auto simp: POV_ReadPixel_def POV_WritePixel_def ON_def OFF_def
        pixel_bit_on_simp pixel_bit_off_simp)
qed

theorem write_then_read_pixel_witness:
  "config_ok cfg12 \<and> frame_ok cfg12 lit12 \<and>
   POV_ReadPixel cfg12 3 4 (POV_WritePixel cfg12 3 4 OFF lit12) = OFF \<and>
   POV_ReadPixel cfg12 3 4 (POV_WritePixel cfg12 3 4 ON lit12) = ON \<and>
   POV_ReadPixel cfg12 3 12 lit12 = 0 \<and> POV_WritePixel cfg12 3 12 ON lit12 = lit12 \<and>
   POV_ReadPixel cfg12 8 4 lit12 = 0 \<and> POV_WritePixel cfg12 8 4 OFF lit12 = lit12"
  using write_then_read_pixel [OF cfg12_ok lit12_frame_ok, of 3 4 OFF]
    write_then_read_pixel [OF cfg12_ok lit12_frame_ok, of 3 4 ON]
    write_then_read_pixel [OF cfg12_ok lit12_frame_ok, of 3 12 ON]
    write_then_read_pixel [OF cfg12_ok lit12_frame_ok, of 8 4 OFF]
    cfg12_ok lit12_frame_ok
  by (simp add: cfg12_def ON_def OFF_def)

section \<open>Bitmaps\<close>

lemma bitmap_loop_append:
  "POV_DrawBitmap_loop bm (xs @ ys) d =
     (case POV_DrawBitmap_loop bm xs d of None \<Rightarrow> None | Some d' \<Rightarrow> POV_DrawBitmap_loop bm ys d')"
  by (induction xs arbitrary: d) simp_all

lemma take_drop_step:
  assumes "n < length bm" and "n < length d"
  shows "(take n bm @ drop n d)[n := bm ! n] = take (Suc n) bm @ drop (Suc n) d"
proof -
  have "drop n d = d ! n # drop (Suc n) d"
    using assms(2) by (simp add: Cons_nth_drop_Suc)
  moreover have "take (Suc n) bm = take n bm @ [bm ! n]"
    using assms(1) by (simp add: take_Suc_conv_app_nth)
  moreover have "length (take n bm) = n"
    using assms(1) by simp
  ultimately show ?thesis
    by (simp add: list_update_append)
qed

lemma bitmap_loop_copy:
  "n \<le> length bm \<Longrightarrow> n \<le> length d \<Longrightarrow>
   POV_DrawBitmap_loop bm [0..<n] d = Some (take n bm @ drop n d)"
proof (induction n)
  case 0
  show ?case by simp
next
  case (Suc n)
  then show ?case by (simp add: bitmap_loop_append take_drop_step)
qed

text \<open>
  C4, as amended: with a non-null \<open>MyBitmap\<close> of at least \<open>BitmapSize\<close> elements and
  \<open>BitmapSize \<le> RESOLUTION\<close>, \<open>POV_DrawBitmap\<close> copies exactly the first \<open>BitmapSize\<close>
  columns of the bitmap into the columns \<open>0 .. BitmapSize - 1\<close> and leaves the columns from
  \<open>BitmapSize\<close> on as they were; with a null pointer or \<open>BitmapSize > RESOLUTION\<close> it
  changes nothing.
\<close>

theorem draw_bitmap_effect:
  assumes "frame_ok cfg s"
  shows "(unat BitmapSize \<le> RESOLUTION cfg \<and> unat BitmapSize \<le> length bm \<longrightarrow>
            POV_DrawBitmap cfg (Some bm) BitmapSize s =
              Some (s\<lparr>PovDisplayData :=
                        take (unat BitmapSize) bm @ drop (unat BitmapSize) (PovDisplayData s)\<rparr>)) \<and>
         (RESOLUTION cfg < unat BitmapSize \<longrightarrow> POV_DrawBitmap cfg (Some bm) BitmapSize s = Some s) \<and>
         POV_DrawBitmap cfg None BitmapSize s = Some s"
  using assms by (simp add: POV_DrawBitmap_def frame_ok_def bitmap_loop_copy)

theorem draw_bitmap_effect_witness:
  "frame_ok cfg12 lit12 \<and>
   POV_DrawBitmap cfg12 (Some [9, 7, 5]) 2 lit12 =
     Some (lit12\<lparr>PovDisplayData := [9, 7, 255, 255, 255, 255, 255, 255, 255, 255, 255, 255]\<rparr>) \<and>
   POV_DrawBitmap cfg12 (Some [9, 7, 5]) 13 lit12 = Some lit12 \<and>
   POV_DrawBitmap cfg12 None 2 lit12 = Some lit12"
  using draw_bitmap_effect [OF lit12_frame_ok, of 2 "[9, 7, 5]"]
    draw_bitmap_effect [OF lit12_frame_ok, of 13 "[9, 7, 5]"] lit12_frame_ok
  by (simp add: cfg12_def lit12_def replicate12)

text \<open>
  The claim as stated says that the columns from \<open>BitmapSize\<close> on are not preserved; here
  two columns are copied and the other ten keep the value 255 they had.
\<close>

theorem draw_bitmap_trailing_columns_kept:
  "POV_DrawBitmap cfg12 (Some [9, 7]) 2 lit12 =
     Some (lit12\<lparr>PovDisplayData := [9, 7, 255, 255, 255, 255, 255, 255, 255, 255, 255, 255]\<rparr>) \<and>
   drop 2 (PovDisplayData (the (POV_DrawBitmap cfg12 (Some [9, 7]) 2 lit12))) =
     drop 2 (PovDisplayData lit12) \<and>
   drop 2 (PovDisplayData lit12) = [255, 255, 255, 255, 255, 255, 255, 255, 255, 255]"
  by (simp add: POV_DrawBitmap_def cfg12_def lit12_def upt_rec replicate12)

section \<open>Writing at a position\<close>

text \<open>
  C5, as amended: \<open>POV_WriteStringInPos\<close> calls \<open>POV_SetCursor\<close>, which changes nothing
  for a slot out of range, and then writes the string as \<open>POV_WriteString\<close> does, so for a
  slot out of range the string is written from the unchanged cursor. \<open>POV_WriteCharInPos\<close>
  sets the cursor and writes the character as \<open>POV_WriteChar\<close> does for a slot in range,
  and does nothing at all for a slot out of range.
\<close>

theorem write_in_position:
  "POV_WriteStringInPos cfg Str Pos s = POV_WriteString cfg Str (POV_SetCursor cfg Pos s) \<and>
   (unat Pos < RESOLUTION cfg div (FONTSIZE cfg + 1) \<longrightarrow>
      POV_SetCursor cfg Pos s =
        s\<lparr>CursPos := Pos, PixelPos := of_nat (unat Pos * (FONTSIZE cfg + 1))\<rparr> \<and>
      POV_WriteCharInPos cfg Chr Pos s = POV_WriteChar cfg Chr (POV_SetCursor cfg Pos s)) \<and>
   (\<not> unat Pos < RESOLUTION cfg div (FONTSIZE cfg + 1) \<longrightarrow>
      POV_SetCursor cfg Pos s = s \<and>
      POV_WriteStringInPos cfg Str Pos s = POV_WriteString cfg Str s \<and>
      POV_WriteCharInPos cfg Chr Pos s = Some s)"
  by (simp add: POV_WriteStringInPos_def POV_WriteCharInPos_def POV_SetCursor_def)

theorem write_in_position_witness:
  "POV_WriteStringInPos cfg12 [65, 0] 1 (startup cfg12) =
     POV_WriteString cfg12 [65, 0] (POV_SetCursor cfg12 1 (startup cfg12)) \<and>
   unat (1::u8) < RESOLUTION cfg12 div (FONTSIZE cfg12 + 1) \<and>
   POV_SetCursor cfg12 1 (startup cfg12) = (startup cfg12)\<lparr>CursPos := 1, PixelPos := 6\<rparr> \<and>
   POV_WriteCharInPos cfg12 65 1 (startup cfg12) =
     POV_WriteChar cfg12 65 (POV_SetCursor cfg12 1 (startup cfg12)) \<and>
   \<not> unat (200::u8) < RESOLUTION cfg12 div (FONTSIZE cfg12 + 1) \<and>
   POV_SetCursor cfg12 200 (startup cfg12) = startup cfg12 \<and>
   POV_WriteStringInPos cfg12 [65, 0] 200 (startup cfg12) =
     POV_WriteString cfg12 [65, 0] (startup cfg12) \<and>
   POV_WriteCharInPos cfg12 65 200 (startup cfg12) = Some (startup cfg12)"
  using write_in_position [of cfg12 "[65, 0]" 1 "startup cfg12" 65]
    write_in_position [of cfg12 "[65, 0]" 200 "startup cfg12" 65]
  by (simp add: cfg12_def)

text \<open>
  The claim as stated has the character written from the current cursor when the slot is
  out of range; \<open>POV_WriteCharInPos\<close> with slot 200 of 2 changes nothing, where
  \<open>POV_WriteChar\<close> would have written the glyph.
\<close>

theorem write_char_in_position_out_of_range:
  "POV_WriteCharInPos cfg12 65 200 (startup cfg12) = Some (startup cfg12) \<and>
   POV_WriteChar cfg12 65 (startup cfg12) =
     Some ((startup cfg12)\<lparr>PovDisplayData := [33, 34, 35, 36, 37, 0, 0, 0, 0, 0, 0, 0],
             PixelPos := 5, CursPos := 1\<rparr>) \<and>
   POV_WriteCharInPos cfg12 65 200 (startup cfg12) \<noteq> POV_WriteChar cfg12 65 (startup cfg12)"
  by (simp add: POV_WriteCharInPos_def POV_WriteChar_def POVDigits_def cfg12_def startup_def
      font0_def upt_rec replicate12)

section \<open>The reference event\<close>

lemma intervals_display_eq:
  "POV_IntervalsDisplay cfg v ls = (\<lambda>i. if i < PIXELS cfg then bit v i else ls i)"
proof -
  have "fold (\<lambda>i l. l(i := (v AND push_bit i 1 \<noteq> 0))) [0..<n] ls =
          (\<lambda>i. if i < n then bit v i else ls i)" for n
    by (induction n) (auto simp: fun_eq_iff bit_iff_and_push_bit_not_eq_0 less_Suc_eq)
  then show ?thesis by (simp add: POV_IntervalsDisplay_def)
qed

lemma unat_ucast_16_32: "unat (ucast (c::u16) :: u32) = unat c"
  by (simp add: unsigned_ucast_eq take_bit_nat_eq_self_iff) (use unsigned_less [of c, where 'a = nat] in simp)

lemma elapsed_no_wrap:
  "unat ((ucast (c::u16) :: u32) + ucast (v::u16) * 65536) = unat c + unat v * 65536"
proof -
  have c: "unat c < 65536" using unsigned_less [of c, where 'a = nat] by simp
  have v: "unat v < 65536" using unsigned_less [of v, where 'a = nat] by simp
  have "unat c + unat v * 65536 < 2 ^ 32" using c v by simp
  then show ?thesis
    by (simp add: unat_word_ariths unat_ucast_16_32)
qed

lemma period_arg:
  "0 < n \<Longrightarrow> n < 2 ^ 32 \<Longrightarrow>
   unat (ucast ((t::u32) div of_nat n) :: u16) = (unat t div n) mod 65536"
  by (simp add: unsigned_ucast_eq unat_div unat_of_nat take_bit_eq_mod)

lemma word_eq_of_nat_unat: "unat (w::'a::len word) = n \<Longrightarrow> w = of_nat n"
  by (metis of_nat_unat ucast_id)

lemma minus_one_mod: "(int a - 1) mod 65536 = int ((a + 65535) mod 65536)"
proof -
  have "(int a - 1) mod 65536 = (int a - 1 + 65536) mod 65536"
    by (simp only: mod_add_self2)
  also have "int a - 1 + 65536 = int (a + 65535)"
    by simp
  finally show ?thesis
    by (simp only: zmod_int of_nat_numeral)
qed

lemma auto_reload_value:
  "unat (ucast (word_of_int (uint (p::u16) * uint (f::u8) - 1) :: u16) :: u32) =
     (unat p * unat f + 65535) mod 65536"
proof -
  have "unat (word_of_int (uint p * uint f - 1) :: u16) =
          nat ((uint p * uint f - 1) mod 2 ^ LENGTH(16))"
    by (simp only: unat_eq_nat_uint uint_word_of_int)
  also have "uint p * uint f = int (unat p * unat f)"
    by simp
  finally have "unat (word_of_int (uint p * uint f - 1) :: u16) =
          nat ((int (unat p * unat f) - 1) mod 65536)"
    by simp
  then show ?thesis
    by (simp only: unat_ucast_16_32 minus_one_mod nat_int)
qed

lemma capture_callback_words:
  "HAL_TIM_IC_CaptureCallback cfg TIM2 s =
    s\<lparr>PixelsCounter := 0,
      POV_lines := (\<lambda>i. if i < PIXELS cfg then bit (PovDisplayData s ! 0) i else POV_lines s i),
      Capture := ucast (TIM2_CCR1 s),
      TimeDifference := ucast (ucast (TIM2_CCR1 s) :: u16) + ucast (ICU_TIM2_OVC s) * 65536,
      TIM3_CNT := 0,
      TIM3_ARR := ucast (word_of_int (uint (ucast
          ((ucast (ucast (TIM2_CCR1 s) :: u16) + ucast (ICU_TIM2_OVC s) * 65536)
             div (of_nat (RESOLUTION cfg) :: u32)) :: u16) * uint (sysClockFreq s) - 1) :: u16),
      ICU_TIM2_OVC := 0, TIM2_CNT := 0\<rparr>"
  unfolding HAL_TIM_IC_CaptureCallback_def setTIM3InterruptPeriod_def Let_def
  by (simp add: intervals_display_eq)

lemma capture_callback_state:
  assumes "0 < RESOLUTION cfg" and "RESOLUTION cfg \<le> 255"
  shows "HAL_TIM_IC_CaptureCallback cfg TIM2 s =
    s\<lparr>PixelsCounter := 0,
      POV_lines := (\<lambda>i. if i < PIXELS cfg then bit (PovDisplayData s ! 0) i else POV_lines s i),
      Capture := ucast (TIM2_CCR1 s),
      TimeDifference := of_nat (elapsed_ticks s),
      TIM3_CNT := 0,
      TIM3_ARR := of_nat (((elapsed_ticks s div RESOLUTION cfg) mod 65536
                             * unat (sysClockFreq s) + 65535) mod 65536),
      ICU_TIM2_OVC := 0, TIM2_CNT := 0\<rparr>"
proof -
  let ?c = "ucast (TIM2_CCR1 s) :: u16"
  let ?t = "(ucast ?c :: u32) + ucast (ICU_TIM2_OVC s) * 65536"
  have e: "unat ?t = elapsed_ticks s"
    by (simp only: elapsed_no_wrap elapsed_ticks_def)
  have t: "?t = of_nat (elapsed_ticks s)"
    by (rule word_eq_of_nat_unat) (rule e)
  have n: "RESOLUTION cfg < 2 ^ 32" using assms(2) by simp
  have p: "unat (ucast (?t div of_nat (RESOLUTION cfg)) :: u16) =
             (elapsed_ticks s div RESOLUTION cfg) mod 65536"
    by (simp only: period_arg [OF assms(1) n] e)
  have a: "(ucast (word_of_int (uint (ucast (?t div of_nat (RESOLUTION cfg)) :: u16)
                * uint (sysClockFreq s) - 1) :: u16) :: u32)
      = of_nat (((elapsed_ticks s div RESOLUTION cfg) mod 65536
                   * unat (sysClockFreq s) + 65535) mod 65536)"
    by (rule word_eq_of_nat_unat) (simp only: auto_reload_value p)
  show ?thesis
    by (simp only: capture_callback_words a) (simp only: t)
qed

text \<open>
  C1, as amended: on every reference event (the capture interrupt of TIM2), in a
  configuration the code is written for, the handler computes the elapsed ticks \<open>E\<close> as
  the 16-bit captured value plus the overflow tally times 65536 and stores it in
  \<open>TimeDifference\<close>; it passes \<open>E div RESOLUTION\<close> truncated to 16 bits, that is
  \<open>(E div RESOLUTION) mod 65536\<close>, as the period to \<open>setTIM3InterruptPeriod\<close>, which
  zeroes the counter of TIM3 and loads its auto-reload register with
  \<open>(period * sysClockFreq - 1) mod 65536\<close>; it resets the column index to 0, drives the
  output lines with the bits of column 0, and resets the overflow tally and the counter of
  TIM2 to 0. The period is \<open>E div RESOLUTION\<close> itself whenever \<open>E < 65536 * RESOLUTION\<close>.
\<close>

theorem capture_event:
  assumes "config_ok cfg" and "frame_ok cfg s"
  shows "HAL_TIM_IC_CaptureCallback cfg TIM2 s =
    s\<lparr>PixelsCounter := 0,
      POV_lines := (\<lambda>i. if i < PIXELS cfg then bit (PovDisplayData s ! 0) i else POV_lines s i),
      Capture := ucast (TIM2_CCR1 s),
      TimeDifference := of_nat (elapsed_ticks s),
      TIM3_CNT := 0,
      TIM3_ARR := of_nat (((elapsed_ticks s div RESOLUTION cfg) mod 65536
                             * unat (sysClockFreq s) + 65535) mod 65536),
      ICU_TIM2_OVC := 0, TIM2_CNT := 0\<rparr> \<and>
    (elapsed_ticks s < 65536 * RESOLUTION cfg \<longrightarrow>
       (elapsed_ticks s div RESOLUTION cfg) mod 65536 = elapsed_ticks s div RESOLUTION cfg)"
proof -
  have r: "0 < RESOLUTION cfg" "RESOLUTION cfg \<le> 255"
    using assms(1) by (simp_all add: config_ok_def)
  have "elapsed_ticks s div RESOLUTION cfg < 65536" if "elapsed_ticks s < 65536 * RESOLUTION cfg"
    using that r(1) by (simp add: less_mult_imp_div_less)
  then show ?thesis
    using capture_callback_state [OF r] by simp
qed

lemma fast12_frame_ok: "frame_ok cfg12 fast12"
  by (simp add: frame_ok_def fast12_def lit12_def cfg12_def)

lemma elapsed_fast12: "elapsed_ticks fast12 = 65543"
  by (simp add: elapsed_ticks_def fast12_def lit12_def startup_def)

theorem capture_event_witness:
  "config_ok cfg12 \<and> frame_ok cfg12 fast12 \<and>
   elapsed_ticks fast12 = 65543 \<and> elapsed_ticks fast12 < 65536 * RESOLUTION cfg12 \<and>
   elapsed_ticks fast12 div RESOLUTION cfg12 = 5461 \<and>
   TimeDifference (HAL_TIM_IC_CaptureCallback cfg12 TIM2 fast12) = 65543 \<and>
   TIM3_ARR (HAL_TIM_IC_CaptureCallback cfg12 TIM2 fast12) = 5460 \<and>
   TIM3_CNT (HAL_TIM_IC_CaptureCallback cfg12 TIM2 fast12) = 0 \<and>
   PixelsCounter (HAL_TIM_IC_CaptureCallback cfg12 TIM2 fast12) = 0 \<and>
   POV_lines (HAL_TIM_IC_CaptureCallback cfg12 TIM2 fast12) 3 \<and>
   ICU_TIM2_OVC (HAL_TIM_IC_CaptureCallback cfg12 TIM2 fast12) = 0 \<and>
   TIM2_CNT (HAL_TIM_IC_CaptureCallback cfg12 TIM2 fast12) = 0"
  using capture_event [OF cfg12_ok fast12_frame_ok] cfg12_ok fast12_frame_ok
  by (simp add: elapsed_fast12) (simp add: cfg12_def fast12_def lit12_def startup_def replicate12)

text \<open>
  The claim as stated has the period \<open>E div RESOLUTION\<close> on every event. With 13 overflows
  and 12 columns \<open>E div RESOLUTION\<close> is 70997, which does not fit the \<open>uint16_t Period\<close>:
  at one tick per microsecond the auto-reload register gets 5460, a period of 5461.
\<close>

theorem capture_period_truncated:
  "elapsed_ticks slow12 = 851975 \<and>
   elapsed_ticks slow12 div RESOLUTION cfg12 = 70997 \<and>
   sysClockFreq slow12 = 1 \<and>
   TimeDifference (HAL_TIM_IC_CaptureCallback cfg12 TIM2 slow12) = 851975 \<and>
   TIM3_ARR (HAL_TIM_IC_CaptureCallback cfg12 TIM2 slow12) = 5460 \<and>
   unat (TIM3_ARR (HAL_TIM_IC_CaptureCallback cfg12 TIM2 slow12)) + 1
     \<noteq> elapsed_ticks slow12 div RESOLUTION cfg12"
  by (simp add: elapsed_ticks_def HAL_TIM_IC_CaptureCallback_def setTIM3InterruptPeriod_def
      slow12_def lit12_def startup_def cfg12_def)

section \<open>The period tick\<close>

lemma period_tick_state:
  "HAL_TIM_PeriodElapsedCallback cfg TIM3 s =
     (if unat (PixelsCounter s + 1) < RESOLUTION cfg
      then s\<lparr>PixelsCounter := PixelsCounter s + 1,
             POV_lines := (\<lambda>i. if i < PIXELS cfg
                                then bit (PovDisplayData s ! unat (PixelsCounter s + 1)) i
                                else POV_lines s i),
             GPIOC_13 := \<not> GPIOC_13 s\<rparr>
      else s\<lparr>PixelsCounter := PixelsCounter s + 1\<rparr>)"
  by (simp add: HAL_TIM_PeriodElapsedCallback_def Let_def intervals_display_eq)

lemma unat_u8_add_nat:
  "unat (x::u8) + n \<le> 255 \<Longrightarrow> unat (x + of_nat n) = unat x + n"
  by (simp add: unat_word_ariths unat_of_nat)

lemma parked_ticks:
  assumes "RESOLUTION cfg - 1 \<le> unat (PixelsCounter s)"
  shows "unat (PixelsCounter s) + k \<le> 255 \<Longrightarrow>
    (HAL_TIM_PeriodElapsedCallback cfg TIM3 ^^ k) s =
      s\<lparr>PixelsCounter := PixelsCounter s + of_nat k\<rparr>"
proof (induction k)
  case 0
  show ?case by simp
next
  case (Suc k)
  have u: "unat (PixelsCounter s + of_nat (Suc k)) = unat (PixelsCounter s) + Suc k"
    using Suc.prems by (rule unat_u8_add_nat)
  have e: "PixelsCounter s + of_nat k + 1 = PixelsCounter s + of_nat (Suc k)"
    by simp
  have n: "\<not> unat (PixelsCounter s + of_nat k + 1) < RESOLUTION cfg"
    unfolding e u using assms by arith
  have "(HAL_TIM_PeriodElapsedCallback cfg TIM3 ^^ k) s =
          s\<lparr>PixelsCounter := PixelsCounter s + of_nat k\<rparr>"
    using Suc by simp
  then have "(HAL_TIM_PeriodElapsedCallback cfg TIM3 ^^ Suc k) s =
          s\<lparr>PixelsCounter := PixelsCounter s + of_nat k + 1\<rparr>"
    using n by (simp add: period_tick_state)
  then show ?case
    by (simp only: e)
qed

lemma sweep12_frame_ok: "frame_ok cfg12 sweep12"
  by (simp add: frame_ok_def sweep12_def lit12_def cfg12_def)

lemma parked12_frame_ok: "frame_ok cfg12 parked12"
  by (simp add: frame_ok_def parked12_def lit12_def cfg12_def)

lemma unat_u8_succ: "unat (x::u8) < 255 \<Longrightarrow> unat (x + 1) = unat x + 1"
  using unat_u8_add_nat [of x 1] by simp

text \<open>
  C2, as amended: in a configuration the code is written for, and as long as the 8-bit
  column index is below 255, a period tick increments the index; the tick emits the
  framebuffer column at the new index (and toggles the debug pin) exactly when the new
  index is below \<open>RESOLUTION\<close>, and otherwise changes nothing but the index. So from an
  index \<open>i \<ge> RESOLUTION - 1\<close> the next \<open>k\<close> ticks, for every \<open>k\<close> with \<open>i + k \<le> 255\<close>,
  take the index to \<open>i + k\<close> and emit no column; a reference event sets the index to 0
  and emits column 0.
\<close>

theorem pacer_tick_and_parking:
  assumes "config_ok cfg" and "frame_ok cfg s"
  shows
  "(unat (PixelsCounter s) < 255 \<longrightarrow>
      unat (PixelsCounter (HAL_TIM_PeriodElapsedCallback cfg TIM3 s)) = unat (PixelsCounter s) + 1 \<and>
      (unat (PixelsCounter s) + 1 < RESOLUTION cfg \<longrightarrow>
         HAL_TIM_PeriodElapsedCallback cfg TIM3 s =
           s\<lparr>PixelsCounter := PixelsCounter s + 1,
             POV_lines := (\<lambda>i. if i < PIXELS cfg
                                then bit (PovDisplayData s ! (unat (PixelsCounter s) + 1)) i
                                else POV_lines s i),
             GPIOC_13 := \<not> GPIOC_13 s\<rparr>) \<and>
      (RESOLUTION cfg \<le> unat (PixelsCounter s) + 1 \<longrightarrow>
         HAL_TIM_PeriodElapsedCallback cfg TIM3 s = s\<lparr>PixelsCounter := PixelsCounter s + 1\<rparr>)) \<and>
   (RESOLUTION cfg - 1 \<le> unat (PixelsCounter s) \<and> unat (PixelsCounter s) + k \<le> 255 \<longrightarrow>
      (HAL_TIM_PeriodElapsedCallback cfg TIM3 ^^ k) s =
        s\<lparr>PixelsCounter := PixelsCounter s + of_nat k\<rparr> \<and>
      unat (PixelsCounter s + of_nat k) = unat (PixelsCounter s) + k) \<and>
   PixelsCounter (HAL_TIM_IC_CaptureCallback cfg TIM2 s) = 0 \<and>
   POV_lines (HAL_TIM_IC_CaptureCallback cfg TIM2 s) =
     (\<lambda>i. if i < PIXELS cfg then bit (PovDisplayData s ! 0) i else POV_lines s i)"
proof -
  have step: "unat (PixelsCounter s + 1) = unat (PixelsCounter s) + 1"
    if "unat (PixelsCounter s) < 255"
    using that by (rule unat_u8_succ)
  have park: "(HAL_TIM_PeriodElapsedCallback cfg TIM3 ^^ k) s =
        s\<lparr>PixelsCounter := PixelsCounter s + of_nat k\<rparr> \<and>
      unat (PixelsCounter s + of_nat k) = unat (PixelsCounter s) + k"
    if "RESOLUTION cfg - 1 \<le> unat (PixelsCounter s)" "unat (PixelsCounter s) + k \<le> 255"
    using parked_ticks [OF that] unat_u8_add_nat [OF that(2)] by simp
  show ?thesis
    using step park by (simp add: period_tick_state capture_callback_words)
qed

theorem pacer_tick_and_parking_witness:
  "config_ok cfg12 \<and> frame_ok cfg12 sweep12 \<and> frame_ok cfg12 parked12 \<and>
   unat (PixelsCounter sweep12) = 2 \<and> RESOLUTION cfg12 = 12 \<and>
   PixelsCounter (HAL_TIM_PeriodElapsedCallback cfg12 TIM3 sweep12) = 3 \<and>
   GPIOC_13 (HAL_TIM_PeriodElapsedCallback cfg12 TIM3 sweep12) \<and>
   POV_lines (HAL_TIM_PeriodElapsedCallback cfg12 TIM3 sweep12) 5 \<and>
   unat (PixelsCounter parked12) = 11 \<and>
   HAL_TIM_PeriodElapsedCallback cfg12 TIM3 parked12 = parked12\<lparr>PixelsCounter := 12\<rparr> \<and>
   (HAL_TIM_PeriodElapsedCallback cfg12 TIM3 ^^ 200) parked12 = parked12\<lparr>PixelsCounter := 211\<rparr> \<and>
   PixelsCounter (HAL_TIM_IC_CaptureCallback cfg12 TIM2 parked12) = 0 \<and>
   POV_lines (HAL_TIM_IC_CaptureCallback cfg12 TIM2 parked12) 5"
  using pacer_tick_and_parking [OF cfg12_ok sweep12_frame_ok, of 0]
    pacer_tick_and_parking [OF cfg12_ok parked12_frame_ok, of 200]
    cfg12_ok sweep12_frame_ok parked12_frame_ok
  by (simp add: cfg12_def sweep12_def parked12_def lit12_def startup_def replicate12)

text \<open>
  The claim as stated keeps the index at most \<open>RESOLUTION\<close>, parks it there, and resumes
  only on a reference event. From the initial state with 12 columns, the index is 12 after
  12 ticks, 13 after 13 ticks and 14 after 14 ticks: it exceeds \<open>RESOLUTION\<close> and keeps
  advancing. The index is a \<open>uint8_t\<close>: after 256 ticks it is 0 again. From index 11
  the next 244 ticks emit nothing and leave the index at 255; the 245th tick, with no
  reference event in between, takes the index to 0, emits column 0 and toggles the debug
  pin. This is why the amended claim stops at \<open>i + k \<le> 255\<close> and does not say that the
  sweep resumes only on a reference event.
\<close>

theorem pacer_index_exceeds_resolution:
  "RESOLUTION cfg12 = 12 \<and>
   PixelsCounter ((HAL_TIM_PeriodElapsedCallback cfg12 TIM3 ^^ 12) (startup cfg12)) = 12 \<and>
   PixelsCounter ((HAL_TIM_PeriodElapsedCallback cfg12 TIM3 ^^ 13) (startup cfg12)) = 13 \<and>
   PixelsCounter ((HAL_TIM_PeriodElapsedCallback cfg12 TIM3 ^^ 14) (startup cfg12)) = 14 \<and>
   \<not> unat (PixelsCounter ((HAL_TIM_PeriodElapsedCallback cfg12 TIM3 ^^ 13) (startup cfg12)))
       \<le> RESOLUTION cfg12 \<and>
   PixelsCounter ((HAL_TIM_PeriodElapsedCallback cfg12 TIM3 ^^ 256) (startup cfg12)) = 0 \<and>
   PixelsCounter parked12 = 11 \<and>
   (HAL_TIM_PeriodElapsedCallback cfg12 TIM3 ^^ 244) parked12 = parked12\<lparr>PixelsCounter := 255\<rparr> \<and>
   \<not> POV_lines ((HAL_TIM_PeriodElapsedCallback cfg12 TIM3 ^^ 244) parked12) 3 \<and>
   \<not> GPIOC_13 ((HAL_TIM_PeriodElapsedCallback cfg12 TIM3 ^^ 244) parked12) \<and>
   PixelsCounter ((HAL_TIM_PeriodElapsedCallback cfg12 TIM3 ^^ 245) parked12) = 0 \<and>
   POV_lines ((HAL_TIM_PeriodElapsedCallback cfg12 TIM3 ^^ 245) parked12) 3 \<and>
   GPIOC_13 ((HAL_TIM_PeriodElapsedCallback cfg12 TIM3 ^^ 245) parked12)"
proof -
  have c: "PixelsCounter ((HAL_TIM_PeriodElapsedCallback cfg TIM3 ^^ k) s) = PixelsCounter s + of_nat k"
    for cfg s k
    by (induction k) (simp_all add: period_tick_state add.assoc)
  have p: "(HAL_TIM_PeriodElapsedCallback cfg12 TIM3 ^^ 244) parked12 =
      parked12\<lparr>PixelsCounter := 255\<rparr>"
    using parked_ticks [of cfg12 parked12 244]
    by (simp add: cfg12_def parked12_def lit12_def startup_def)
  have "(HAL_TIM_PeriodElapsedCallback cfg12 TIM3 ^^ Suc 244) parked12 =
      HAL_TIM_PeriodElapsedCallback cfg12 TIM3 (parked12\<lparr>PixelsCounter := 255\<rparr>)"
    unfolding funpow.simps o_apply p ..
  then have w: "(HAL_TIM_PeriodElapsedCallback cfg12 TIM3 ^^ 245) parked12 =
      HAL_TIM_PeriodElapsedCallback cfg12 TIM3 (parked12\<lparr>PixelsCounter := 255\<rparr>)"
    by simp
  have a: "RESOLUTION cfg12 = 12 \<and>
   PixelsCounter ((HAL_TIM_PeriodElapsedCallback cfg12 TIM3 ^^ 12) (startup cfg12)) = 12 \<and>
   PixelsCounter ((HAL_TIM_PeriodElapsedCallback cfg12 TIM3 ^^ 13) (startup cfg12)) = 13 \<and>
   PixelsCounter ((HAL_TIM_PeriodElapsedCallback cfg12 TIM3 ^^ 14) (startup cfg12)) = 14 \<and>
   \<not> unat (PixelsCounter ((HAL_TIM_PeriodElapsedCallback cfg12 TIM3 ^^ 13) (startup cfg12)))
       \<le> RESOLUTION cfg12 \<and>
   PixelsCounter ((HAL_TIM_PeriodElapsedCallback cfg12 TIM3 ^^ 256) (startup cfg12)) = 0"
    by (simp add: c) (simp add: cfg12_def startup_def)
  have b: "PixelsCounter parked12 = 11 \<and>
   \<not> POV_lines (parked12\<lparr>PixelsCounter := 255\<rparr>) 3 \<and>
   \<not> GPIOC_13 (parked12\<lparr>PixelsCounter := 255\<rparr>) \<and>
   PixelsCounter (HAL_TIM_PeriodElapsedCallback cfg12 TIM3 (parked12\<lparr>PixelsCounter := 255\<rparr>)) = 0 \<and>
   POV_lines (HAL_TIM_PeriodElapsedCallback cfg12 TIM3 (parked12\<lparr>PixelsCounter := 255\<rparr>)) 3 \<and>
   GPIOC_13 (HAL_TIM_PeriodElapsedCallback cfg12 TIM3 (parked12\<lparr>PixelsCounter := 255\<rparr>))"
    by (simp add: period_tick_state cfg12_def parked12_def lit12_def startup_def replicate12)
  show ?thesis
    unfolding w p using a b p by simp
qed

section \<open>Frames\<close>

lemma or_bits_fold:
  "bit (fold (\<lambda>r v. v OR push_bit r 1) rs (v::u8)) k \<longleftrightarrow> bit v k \<or> (k \<in> set rs \<and> k < 8)"
  by (induction rs arbitrary: v) (auto simp: bit_simps)

lemma frame_rows_eq:
  "fold (\<lambda>r d. d[c := d ! c OR push_bit r 1]) rs d =
     d[c := fold (\<lambda>r v. v OR push_bit r 1) rs ((d::u8 list) ! c)]"
proof (induction rs arbitrary: d)
  case Nil
  show ?case by simp
next
  case (Cons r rs)
  show ?case
    by (cases "c < length d") (simp_all add: Cons list_update_beyond del: push_bit_of_1)
qed

lemma frame_column_eq:
  "POV_DrawFrame_column c1 r1 r2 c2 c d =
     d[c := (if c = c1 \<or> c = c2
             then fold (\<lambda>r v. v OR push_bit r 1) [r1..<r2 + 1]
                    (d ! c OR (push_bit r1 1 OR push_bit r2 1))
             else d ! c OR (push_bit r1 1 OR push_bit r2 1))]"
  unfolding POV_DrawFrame_column_def POV_DrawFrame_rows_def Let_def frame_rows_eq
  by (cases "c < length d") (simp_all add: list_update_beyond del: push_bit_of_1 upt_Suc)

lemma frame_column_length:
  "length (POV_DrawFrame_column c1 r1 r2 c2 c d) = length d"
  by (simp only: frame_column_eq length_list_update)

lemma frame_column_other:
  "j \<noteq> c \<Longrightarrow> POV_DrawFrame_column c1 r1 r2 c2 c d ! j = d ! j"
  by (simp only: frame_column_eq) simp

lemma frame_column_bits:
  assumes "c < length d" and "r1 < r2" and "r2 < 8"
  shows "bit (POV_DrawFrame_column c1 r1 r2 c2 c d ! c) k \<longleftrightarrow>
     bit (d ! c) k \<or> k = r1 \<or> k = r2 \<or> ((c = c1 \<or> c = c2) \<and> r1 \<le> k \<and> k \<le> r2)"
proof -
  have "k \<in> set [r1..<r2 + 1] \<longleftrightarrow> r1 \<le> k \<and> k \<le> r2"
    by auto
  then show ?thesis
    using assms
    by (simp only: frame_column_eq nth_list_update_eq or_bits_fold split: if_split)
      (auto simp: bit_simps)
qed

lemma frame_fold_length:
  "length (fold (POV_DrawFrame_column c1 r1 r2 c2) cs d) = length d"
  by (induction cs arbitrary: d) (simp_all add: frame_column_length)

lemma frame_fold_outside:
  "j \<notin> set cs \<Longrightarrow> fold (POV_DrawFrame_column c1 r1 r2 c2) cs d ! j = d ! j"
  by (induction cs arbitrary: d) (simp_all add: frame_column_other)

lemma frame_fold_bits:
  assumes "r1 < r2" and "r2 < 8"
  shows "distinct cs \<Longrightarrow> j \<in> set cs \<Longrightarrow> j < length d \<Longrightarrow>
    bit (fold (POV_DrawFrame_column c1 r1 r2 c2) cs d ! j) k \<longleftrightarrow>
      bit (d ! j) k \<or> k = r1 \<or> k = r2 \<or> ((j = c1 \<or> j = c2) \<and> r1 \<le> k \<and> k \<le> r2)"
proof (induction cs arbitrary: d)
  case Nil
  then show ?case by simp
next
  case (Cons c cs)
  show ?case
  proof (cases "j = c")
    case True
    then have "j \<notin> set cs" using Cons.prems(1) by simp
    then have "fold (POV_DrawFrame_column c1 r1 r2 c2) (c # cs) d ! j =
                 POV_DrawFrame_column c1 r1 r2 c2 c d ! c"
      using True by (simp add: frame_fold_outside)
    then show ?thesis
      using frame_column_bits [OF _ assms, of c d c1 c2 k] Cons.prems(3) True by simp
  next
    case False
    then have "j \<in> set cs" using Cons.prems(2) by simp
    then show ?thesis
      using Cons.IH [of "POV_DrawFrame_column c1 r1 r2 c2 c d"] Cons.prems False
      by (simp add: frame_column_length frame_column_other)
  qed
qed

text \<open>
  C7: under the check of \<open>POV_DrawFrame\<close> (\<open>Row2 < PIXELS\<close>, \<open>Row1 < Row2\<close>,
  \<open>Column1 < RESOLUTION\<close>, \<open>Column2 < RESOLUTION\<close>) and with \<open>Column1 \<le> Column2\<close>, a pixel
  is ON after the call iff it was ON before or it lies in a column from \<open>Column1\<close> to
  \<open>Column2\<close> and either in row \<open>Row1\<close> or \<open>Row2\<close>, or in a row from \<open>Row1\<close> to \<open>Row2\<close>
  of column \<open>Column1\<close> or \<open>Column2\<close>. So the two rows are set across all these columns,
  the two edge columns are filled between the rows, no other column and nothing else of
  the state changes, and no pixel is cleared.
\<close>

theorem draw_frame_effect:
  assumes "config_ok cfg" and "frame_ok cfg s"
    and "unat Row2 < PIXELS cfg" and "unat Row1 < unat Row2"
    and "unat Column1 < RESOLUTION cfg" and "unat Column2 < RESOLUTION cfg"
    and "unat Column1 \<le> unat Column2"
  shows "POV_DrawFrame cfg Column1 Row1 Row2 Column2 s =
           s\<lparr>PovDisplayData := PovDisplayData (POV_DrawFrame cfg Column1 Row1 Row2 Column2 s)\<rparr> \<and>
         length (PovDisplayData (POV_DrawFrame cfg Column1 Row1 Row2 Column2 s)) = RESOLUTION cfg \<and>
         (\<forall>c r. c < RESOLUTION cfg \<longrightarrow>
            bit (PovDisplayData (POV_DrawFrame cfg Column1 Row1 Row2 Column2 s) ! c) r =
              (bit (PovDisplayData s ! c) r \<or>
               (unat Column1 \<le> c \<and> c \<le> unat Column2 \<and>
                (r = unat Row1 \<or> r = unat Row2 \<or>
                 ((c = unat Column1 \<or> c = unat Column2) \<and> unat Row1 \<le> r \<and> r \<le> unat Row2)))))"
proof -
  let ?cs = "[unat Column1..<unat Column2 + 1]"
  let ?d' = "fold (POV_DrawFrame_column (unat Column1) (unat Row1) (unat Row2) (unat Column2))
               ?cs (PovDisplayData s)"
  have len: "length (PovDisplayData s) = RESOLUTION cfg"
    using assms(2) by (simp add: frame_ok_def)
  have r8: "unat Row2 < 8"
    using assms(1,3) by (simp add: config_ok_def)
  have run: "POV_DrawFrame cfg Column1 Row1 Row2 Column2 s = s\<lparr>PovDisplayData := ?d'\<rparr>"
    using assms(3-6) by (simp add: POV_DrawFrame_def)
  have bits: "bit (?d' ! c) r =
      (bit (PovDisplayData s ! c) r \<or>
       (unat Column1 \<le> c \<and> c \<le> unat Column2 \<and>
        (r = unat Row1 \<or> r = unat Row2 \<or>
         ((c = unat Column1 \<or> c = unat Column2) \<and> unat Row1 \<le> r \<and> r \<le> unat Row2))))"
    if "c < RESOLUTION cfg" for c r
  proof (cases "c \<in> set ?cs")
    case True
    then show ?thesis
      using frame_fold_bits [OF assms(4) r8, of ?cs c "PovDisplayData s" "unat Column1" "unat Column2" r]
        that len by auto
  next
    case False
    then show ?thesis
      using frame_fold_outside [of c ?cs] by auto
  qed
  show ?thesis
    unfolding run using bits by (simp add: frame_fold_length len)
qed

theorem draw_frame_effect_witness:
  "config_ok cfg12 \<and> frame_ok cfg12 (startup cfg12) \<and>
   unat (3::u8) < PIXELS cfg12 \<and> unat (1::u8) < unat (3::u8) \<and>
   unat (1::u8) < RESOLUTION cfg12 \<and> unat (4::u8) < RESOLUTION cfg12 \<and>
   unat (1::u8) \<le> unat (4::u8) \<and>
   POV_DrawFrame cfg12 1 1 3 4 (startup cfg12) =
     (startup cfg12)\<lparr>PovDisplayData := [0, 14, 10, 10, 14, 0, 0, 0, 0, 0, 0, 0]\<rparr> \<and>
   bit (PovDisplayData (POV_DrawFrame cfg12 1 1 3 4 (startup cfg12)) ! 4) 2 \<and>
   \<not> bit (PovDisplayData (POV_DrawFrame cfg12 1 1 3 4 (startup cfg12)) ! 3) 2 \<and>
   length (PovDisplayData (POV_DrawFrame cfg12 1 1 3 4 (startup cfg12))) = RESOLUTION cfg12"
proof -
  have h: "unat (3::u8) < PIXELS cfg12" "unat (1::u8) < unat (3::u8)"
    "unat (1::u8) < RESOLUTION cfg12" "unat (4::u8) < RESOLUTION cfg12"
    "unat (1::u8) \<le> unat (4::u8)"
    by (simp_all add: cfg12_def)
  have e: "POV_DrawFrame cfg12 1 1 3 4 (startup cfg12) =
     (startup cfg12)\<lparr>PovDisplayData := [0, 14, 10, 10, 14, 0, 0, 0, 0, 0, 0, 0]\<rparr>"
    by (simp add: POV_DrawFrame_def POV_DrawFrame_column_def POV_DrawFrame_rows_def
        cfg12_def startup_def replicate12 upt_rec)
  have z: "PovDisplayData (startup cfg12) ! 4 = 0" "PovDisplayData (startup cfg12) ! 3 = 0"
    by (simp_all add: cfg12_def startup_def replicate12)
  have t: "\<forall>c r. c < RESOLUTION cfg12 \<longrightarrow>
            bit (PovDisplayData (POV_DrawFrame cfg12 1 1 3 4 (startup cfg12)) ! c) r =
              (bit (PovDisplayData (startup cfg12) ! c) r \<or>
               (unat (1::u8) \<le> c \<and> c \<le> unat (4::u8) \<and>
                (r = unat (1::u8) \<or> r = unat (3::u8) \<or>
                 ((c = unat (1::u8) \<or> c = unat (4::u8)) \<and> unat (1::u8) \<le> r \<and> r \<le> unat (3::u8)))))"
    and l: "length (PovDisplayData (POV_DrawFrame cfg12 1 1 3 4 (startup cfg12))) = RESOLUTION cfg12"
    using draw_frame_effect [OF cfg12_ok startup_frame_ok h] by blast+
  have b4: "bit (PovDisplayData (POV_DrawFrame cfg12 1 1 3 4 (startup cfg12)) ! 4) 2"
    using t [rule_format, of 4 2] h by (simp add: z)
  have b3: "\<not> bit (PovDisplayData (POV_DrawFrame cfg12 1 1 3 4 (startup cfg12)) ! 3) 2"
    using t [rule_format, of 3 2] h by (simp add: z)
  show ?thesis
    using cfg12_ok startup_frame_ok h e b4 b3 l by blast
qed

section \<open>Characters and strings\<close>

lemma unat_of_nat_u8: "n \<le> 255 \<Longrightarrow> unat (of_nat n :: u8) = n"
  by (simp add: unat_of_nat)

lemma write_char_loop_result:
  assumes "RESOLUTION cfg \<le> 255"
  shows "unat p + length ks < RESOLUTION cfg \<Longrightarrow> length d = RESOLUTION cfg \<Longrightarrow>
    POV_WriteChar_loop cfg Chr ks d p =
      Some (take (unat p) d @ map (POV_Font cfg (uint Chr - 32)) ks @ drop (unat p + length ks) d,
            of_nat (unat p + length ks))"
proof (induction ks arbitrary: d p)
  case Nil
  then show ?case by simp
next
  case (Cons k ks)
  define v where "v = POV_Font cfg (uint Chr - 32) k"
  define n where "n = unat p"
  define q :: u8 where "q = of_nat ((n + 1) mod RESOLUTION cfg)"
  have lt: "n < RESOLUTION cfg" "n + 1 < RESOLUTION cfg" "n + 1 + length ks < RESOLUTION cfg"
    using Cons.prems(1) by (simp_all add: n_def)
  have "(n + 1) mod RESOLUTION cfg = n + 1"
    using lt by simp
  then have q: "unat q = n + 1"
    unfolding q_def using lt assms by (simp only: unat_of_nat_u8)
  have len: "length (d[n := v]) = RESOLUTION cfg"
    using Cons.prems(2) by simp
  have "POV_WriteChar_loop cfg Chr ks (d[n := v]) q =
      Some (take (unat q) (d[n := v]) @ map (POV_Font cfg (uint Chr - 32)) ks @
              drop (unat q + length ks) (d[n := v]),
            of_nat (unat q + length ks))"
    using lt(3) len by (intro Cons.IH) (simp_all only: q)
  moreover have "take (n + 1) (d[n := v]) = take n d @ [v]"
    using lt Cons.prems(2) by (simp add: take_Suc_conv_app_nth)
  moreover have "drop (n + 1 + length ks) (d[n := v]) = drop (n + 1 + length ks) d"
    by simp
  moreover have "n + 1 + length ks = n + length (k # ks)"
    by simp
  ultimately have "POV_WriteChar_loop cfg Chr ks (d[n := v]) q =
      Some (take n d @ map (POV_Font cfg (uint Chr - 32)) (k # ks) @ drop (n + length (k # ks)) d,
            of_nat (n + length (k # ks)))"
    by (simp only: q v_def list.map append.simps append_assoc)
  then show ?case
    using lt(1) by (simp only: POV_WriteChar_loop.simps n_def [symmetric] v_def [symmetric] q_def [symmetric] if_True)
qed

lemma slot_columns:
  assumes "c < RESOLUTION cfg div (FONTSIZE cfg + 1)"
  shows "c * (FONTSIZE cfg + 1) + FONTSIZE cfg < RESOLUTION cfg"
proof -
  define m where "m = FONTSIZE cfg + 1"
  have "(c + 1) * m \<le> RESOLUTION cfg div m * m"
    using assms unfolding m_def by (intro mult_le_mono1) simp
  also have "\<dots> \<le> RESOLUTION cfg"
    by (rule div_times_less_eq_dividend)
  finally have "c * m + m \<le> RESOLUTION cfg"
    by simp
  then show ?thesis
    unfolding m_def by simp
qed

lemma digits_value:
  assumes "config_ok cfg"
  shows "unat (POVDigits cfg) = RESOLUTION cfg div (FONTSIZE cfg + 1)"
    and "0 < RESOLUTION cfg div (FONTSIZE cfg + 1)"
    and "RESOLUTION cfg div (FONTSIZE cfg + 1) \<le> 255"
proof -
  have r: "RESOLUTION cfg \<le> 255" "FONTSIZE cfg + 1 \<le> RESOLUTION cfg"
    using assms by (simp_all add: config_ok_def)
  show le: "RESOLUTION cfg div (FONTSIZE cfg + 1) \<le> 255"
    by (rule le_trans [OF div_le_dividend r(1)])
  show "unat (POVDigits cfg) = RESOLUTION cfg div (FONTSIZE cfg + 1)"
    unfolding POVDigits_def using le by (rule unat_of_nat_u8)
  show "0 < RESOLUTION cfg div (FONTSIZE cfg + 1)"
    using r(2) by (simp only: div_greater_zero_iff) simp
qed

lemma write_char_result:
  assumes "config_ok cfg" and "frame_ok cfg s" and "cursor_ok cfg s"
  shows "POV_WriteChar cfg Chr s =
    Some (s\<lparr>PovDisplayData :=
               take (unat (CursPos s) * (FONTSIZE cfg + 1)) (PovDisplayData s) @
               map (POV_Font cfg (uint Chr - 32)) [0..<FONTSIZE cfg] @ [0] @
               drop ((unat (CursPos s) + 1) * (FONTSIZE cfg + 1)) (PovDisplayData s),
             PixelPos := of_nat (unat (CursPos s) * (FONTSIZE cfg + 1) + FONTSIZE cfg),
             CursPos := of_nat ((unat (CursPos s) + 1) mod (RESOLUTION cfg div (FONTSIZE cfg + 1)))\<rparr>)"
proof -
  define F where "F = FONTSIZE cfg"
  define a where "a = unat (CursPos s) * (FONTSIZE cfg + 1)"
  define d where "d = PovDisplayData s"
  define G where "G = map (POV_Font cfg (uint Chr - 32)) [0..<FONTSIZE cfg]"
  define p0 :: u8 where "p0 = of_nat a"
  define p1 :: u8 where "p1 = of_nat (a + F)"
  have r: "RESOLUTION cfg \<le> 255" using assms(1) by (simp add: config_ok_def)
  have len: "length d = RESOLUTION cfg" using assms(2) by (simp add: frame_ok_def d_def)
  have b: "a + F < RESOLUTION cfg"
    using assms(3) unfolding cursor_ok_def a_def F_def by (rule slot_columns)
  have lG: "length G = F" by (simp add: G_def F_def)
  have up0: "unat p0 = a"
    unfolding p0_def using b r by (intro unat_of_nat_u8) simp
  have up1: "unat p1 = a + F"
    unfolding p1_def using b r by (intro unat_of_nat_u8) simp
  have "POV_WriteChar_loop cfg Chr [0..<FONTSIZE cfg] d p0 =
      Some (take (unat p0) d @ map (POV_Font cfg (uint Chr - 32)) [0..<FONTSIZE cfg] @
              drop (unat p0 + length [0..<FONTSIZE cfg]) d,
            of_nat (unat p0 + length [0..<FONTSIZE cfg]))"
    using b len by (intro write_char_loop_result [OF r]) (simp_all add: up0 F_def)
  then have loop: "POV_WriteChar_loop cfg Chr [0..<FONTSIZE cfg] d p0 =
      Some (take a d @ G @ drop (a + F) d, p1)"
    by (simp add: up0 G_def F_def p1_def)
  have next_slot: "(unat (CursPos s) + 1) * (FONTSIZE cfg + 1) = a + F + 1"
    by (simp add: a_def F_def)
  have upd: "(take a d @ G @ drop (a + F) d)[a + F := 0] = take a d @ G @ [0] @ drop (a + F + 1) d"
  proof -
    have "drop (a + F) d = d ! (a + F) # drop (a + F + 1) d"
      using b len by (simp add: Cons_nth_drop_Suc)
    moreover have "length (take a d @ G) = a + F"
      using b len lG by simp
    ultimately show ?thesis
      by (metis append.assoc append_Cons append_Nil list_update_length)
  qed
  have dg: "POVDigits cfg \<noteq> 0"
    using digits_value(1,2) [OF assms(1)] by auto
  have "POV_WriteChar cfg Chr s =
     Some (s\<lparr>PovDisplayData := (take a d @ G @ drop (a + F) d)[unat p1 := 0], PixelPos := p1,
              CursPos := of_nat ((unat (CursPos s) + 1) mod unat (POVDigits cfg))\<rparr>)"
    unfolding POV_WriteChar_def d_def [symmetric] a_def [symmetric] p0_def [symmetric] loop
    using b dg by (simp add: up1)
  then show ?thesis
    unfolding up1 upd digits_value(1) [OF assms(1)] next_slot
    unfolding p1_def G_def d_def a_def F_def .
qed

lemma write_char_preserves:
  assumes "config_ok cfg" and "frame_ok cfg s" and "cursor_ok cfg s"
  shows "\<exists>s'. POV_WriteChar cfg Chr s = Some s' \<and> frame_ok cfg s' \<and> cursor_ok cfg s'"
proof -
  define D where "D = RESOLUTION cfg div (FONTSIZE cfg + 1)"
  define a where "a = unat (CursPos s) * (FONTSIZE cfg + 1)"
  have D: "0 < D" "D \<le> 255"
    using digits_value(2,3) [OF assms(1)] by (simp_all add: D_def)
  have len: "length (PovDisplayData s) = RESOLUTION cfg"
    using assms(2) by (simp add: frame_ok_def)
  have b: "a + FONTSIZE cfg < RESOLUTION cfg"
    using assms(3) unfolding cursor_ok_def a_def by (rule slot_columns)
  have nxt: "(unat (CursPos s) + 1) * (FONTSIZE cfg + 1) = a + FONTSIZE cfg + 1"
    by (simp add: a_def)
  have m: "(unat (CursPos s) + 1) mod D < D"
    using D(1) by simp
  then have "unat (of_nat ((unat (CursPos s) + 1) mod D) :: u8) = (unat (CursPos s) + 1) mod D"
    using D(2) by (intro unat_of_nat_u8) simp
  then have c: "unat (of_nat ((unat (CursPos s) + 1) mod D) :: u8) < D"
    using m by simp
  have l: "length (take a (PovDisplayData s) @
               map (POV_Font cfg (uint Chr - 32)) [0..<FONTSIZE cfg] @ [0] @
               drop (a + FONTSIZE cfg + 1) (PovDisplayData s)) = RESOLUTION cfg"
    using b len by simp
  show ?thesis
    unfolding write_char_result [OF assms] nxt a_def [symmetric] D_def [symmetric]
    using c l by (simp add: frame_ok_def cursor_ok_def D_def)
qed

lemma write_string_preserves:
  assumes "config_ok cfg"
  shows "0 \<in> set Str \<Longrightarrow> frame_ok cfg s \<Longrightarrow> cursor_ok cfg s \<Longrightarrow>
    \<exists>s'. POV_WriteString cfg Str s = Some s' \<and> frame_ok cfg s' \<and> cursor_ok cfg s'"
proof (induction Str arbitrary: s)
  case Nil
  then show ?case by simp
next
  case (Cons c cs)
  show ?case
  proof (cases "c = 0")
    case True
    then show ?thesis using Cons.prems by simp
  next
    case False
    then have z: "0 \<in> set cs" using Cons.prems(1) by simp
    obtain s1 where s1: "POV_WriteChar cfg c s = Some s1" "frame_ok cfg s1" "cursor_ok cfg s1"
      using write_char_preserves [OF assms Cons.prems(2,3)] by blast
    show ?thesis
      using Cons.IH [OF z s1(2,3)] s1(1) False by simp
  qed
qed

lemma set_cursor_preserves:
  "frame_ok cfg s \<Longrightarrow> cursor_ok cfg s \<Longrightarrow>
   frame_ok cfg (POV_SetCursor cfg Pos s) \<and> cursor_ok cfg (POV_SetCursor cfg Pos s)"
  by (simp add: POV_SetCursor_def frame_ok_def cursor_ok_def)

lemma clear_loop_length: "length (fold (\<lambda>i d. d[i := 0]) [0..<n] d) = length (d::u8 list)"
  by (induction n) simp_all

text \<open>
  C10: in a configuration the code is written for, the cursor slot is below the slot count
  \<open>RESOLUTION div (FONTSIZE + 1)\<close> in the initial state and after \<open>POV_Init\<close>, and
  \<open>POV_Clear\<close>, \<open>POV_SetCursor\<close>, \<open>POV_WriteChar\<close>, \<open>POV_WriteCharInPos\<close>,
  \<open>POV_WriteString\<close> and \<open>POV_WriteStringInPos\<close> (on a zero-terminated string) keep it so;
  none of them stores outside the framebuffer (each returns a state), and the indices
  \<open>POV_WriteChar\<close> stores at, \<open>CursPos * (FONTSIZE + 1) + k\<close> for \<open>k \<le> FONTSIZE\<close>, are
  below \<open>RESOLUTION\<close>.
\<close>

theorem cursor_invariant:
  assumes "config_ok cfg"
  shows "frame_ok cfg (startup cfg) \<and> cursor_ok cfg (startup cfg) \<and>
    cursor_ok cfg (POV_Init SysClock s) \<and>
    (frame_ok cfg s \<and> cursor_ok cfg s \<longrightarrow>
       frame_ok cfg (POV_Clear cfg s) \<and> cursor_ok cfg (POV_Clear cfg s) \<and>
       frame_ok cfg (POV_SetCursor cfg Pos s) \<and> cursor_ok cfg (POV_SetCursor cfg Pos s) \<and>
       (\<exists>s'. POV_WriteChar cfg Chr s = Some s' \<and> frame_ok cfg s' \<and> cursor_ok cfg s') \<and>
       (\<exists>s'. POV_WriteCharInPos cfg Chr Pos s = Some s' \<and> frame_ok cfg s' \<and> cursor_ok cfg s') \<and>
       (0 \<in> set Str \<longrightarrow>
          (\<exists>s'. POV_WriteString cfg Str s = Some s' \<and> frame_ok cfg s' \<and> cursor_ok cfg s') \<and>
          (\<exists>s'. POV_WriteStringInPos cfg Str Pos s = Some s' \<and> frame_ok cfg s' \<and> cursor_ok cfg s')) \<and>
       (\<forall>k\<le>FONTSIZE cfg. unat (CursPos s) * (FONTSIZE cfg + 1) + k < RESOLUTION cfg))"
proof -
  have D: "0 < RESOLUTION cfg div (FONTSIZE cfg + 1)"
    by (rule digits_value(2) [OF assms])
  have init: "frame_ok cfg (startup cfg)" "cursor_ok cfg (startup cfg)"
    "cursor_ok cfg (POV_Init SysClock s)"
    using D by (simp_all add: frame_ok_def cursor_ok_def startup_def POV_Init_def Let_def)
  have step: "frame_ok cfg (POV_Clear cfg s) \<and> cursor_ok cfg (POV_Clear cfg s) \<and>
       frame_ok cfg (POV_SetCursor cfg Pos s) \<and> cursor_ok cfg (POV_SetCursor cfg Pos s) \<and>
       (\<exists>s'. POV_WriteChar cfg Chr s = Some s' \<and> frame_ok cfg s' \<and> cursor_ok cfg s') \<and>
       (\<exists>s'. POV_WriteCharInPos cfg Chr Pos s = Some s' \<and> frame_ok cfg s' \<and> cursor_ok cfg s') \<and>
       (0 \<in> set Str \<longrightarrow>
          (\<exists>s'. POV_WriteString cfg Str s = Some s' \<and> frame_ok cfg s' \<and> cursor_ok cfg s') \<and>
          (\<exists>s'. POV_WriteStringInPos cfg Str Pos s = Some s' \<and> frame_ok cfg s' \<and> cursor_ok cfg s')) \<and>
       (\<forall>k\<le>FONTSIZE cfg. unat (CursPos s) * (FONTSIZE cfg + 1) + k < RESOLUTION cfg)"
    if f: "frame_ok cfg s" and c: "cursor_ok cfg s"
  proof -
    have clr: "frame_ok cfg (POV_Clear cfg s)" "cursor_ok cfg (POV_Clear cfg s)"
      using f D by (simp_all add: POV_Clear_def frame_ok_def cursor_ok_def clear_loop_length)
    note cur = set_cursor_preserves [OF f c, of Pos]
    have wc: "\<exists>s'. POV_WriteChar cfg Chr s = Some s' \<and> frame_ok cfg s' \<and> cursor_ok cfg s'"
      by (rule write_char_preserves [OF assms f c])
    have wcp: "\<exists>s'. POV_WriteCharInPos cfg Chr Pos s = Some s' \<and> frame_ok cfg s' \<and> cursor_ok cfg s'"
      unfolding POV_WriteCharInPos_def
      using write_char_preserves [OF assms conjunct1 [OF cur] conjunct2 [OF cur]] f c by simp
    have ws: "\<exists>s'. POV_WriteString cfg Str s = Some s' \<and> frame_ok cfg s' \<and> cursor_ok cfg s'"
      if "0 \<in> set Str"
      by (rule write_string_preserves [OF assms that f c])
    have wsp: "\<exists>s'. POV_WriteStringInPos cfg Str Pos s = Some s' \<and> frame_ok cfg s' \<and> cursor_ok cfg s'"
      if "0 \<in> set Str"
      unfolding POV_WriteStringInPos_def
      by (rule write_string_preserves [OF assms that conjunct1 [OF cur] conjunct2 [OF cur]])
    have idx: "unat (CursPos s) * (FONTSIZE cfg + 1) + k < RESOLUTION cfg" if "k \<le> FONTSIZE cfg" for k
      using slot_columns [of "unat (CursPos s)" cfg] c that by (simp add: cursor_ok_def)
    show ?thesis
      using clr cur wc wcp ws wsp idx by blast
  qed
  show ?thesis
    using init step by blast
qed

theorem cursor_invariant_witness:
  "config_ok cfg12 \<and> frame_ok cfg12 (startup cfg12) \<and> cursor_ok cfg12 (startup cfg12) \<and>
   cursor_ok cfg12 (POV_Init 72000000 (startup cfg12)) \<and>
   (0::u8) \<in> set [65, 66, 0] \<and>
   cursor_ok cfg12 (POV_Clear cfg12 (startup cfg12)) \<and>
   cursor_ok cfg12 (POV_SetCursor cfg12 1 (startup cfg12)) \<and>
   (\<exists>s'. POV_WriteChar cfg12 65 (startup cfg12) = Some s' \<and> frame_ok cfg12 s' \<and> cursor_ok cfg12 s') \<and>
   (\<exists>s'. POV_WriteCharInPos cfg12 65 1 (startup cfg12) = Some s' \<and> frame_ok cfg12 s' \<and>
      cursor_ok cfg12 s') \<and>
   (\<exists>s'. POV_WriteString cfg12 [65, 66, 0] (startup cfg12) = Some s' \<and> frame_ok cfg12 s' \<and>
      cursor_ok cfg12 s') \<and>
   (\<exists>s'. POV_WriteStringInPos cfg12 [65, 66, 0] 1 (startup cfg12) = Some s' \<and> frame_ok cfg12 s' \<and>
      cursor_ok cfg12 s') \<and>
   unat (CursPos (startup cfg12)) * (FONTSIZE cfg12 + 1) + 5 < RESOLUTION cfg12"
proof -
  have z: "(0::u8) \<in> set [65, 66, 0]" by simp
  have k: "5 \<le> FONTSIZE cfg12" by (simp add: cfg12_def)
  note t = cursor_invariant [OF cfg12_ok, of 72000000 "startup cfg12" 1 65 "[65, 66, 0]"]
  have f: "frame_ok cfg12 (startup cfg12)" and c: "cursor_ok cfg12 (startup cfg12)"
    using t by blast+
  show ?thesis
    using t f c z k cfg12_ok by blast
qed

section \<open>Writing two characters\<close>

text \<open>
  C9, as amended: on a display with at least two character slots
  (\<open>2 * (FONTSIZE + 1) \<le> RESOLUTION\<close>), \<open>POV_WriteString\<close> of \<open>"AB"\<close> with the cursor at
  slot 0 writes exactly the columns \<open>0 .. 2 * FONTSIZE + 1\<close>: the glyph columns of \<open>A\<close>
  (row 33 of the font table), a zero column at index \<open>FONTSIZE\<close>, the glyph columns of \<open>B\<close>
  (row 34) and a zero column at index \<open>2 * FONTSIZE + 1\<close>; the other columns keep their
  values, and the cursor is left at slot 2 modulo the slot count.
\<close>

theorem write_string_AB:
  assumes "config_ok cfg" and "frame_ok cfg s" and "CursPos s = 0"
    and "2 * (FONTSIZE cfg + 1) \<le> RESOLUTION cfg"
  shows "POV_WriteString cfg [65, 66, 0] s =
    Some (s\<lparr>PovDisplayData :=
               map (POV_Font cfg 33) [0..<FONTSIZE cfg] @ [0] @
               map (POV_Font cfg 34) [0..<FONTSIZE cfg] @ [0] @
               drop (2 * (FONTSIZE cfg + 1)) (PovDisplayData s),
             PixelPos := of_nat (2 * FONTSIZE cfg + 1),
             CursPos := of_nat (2 mod (RESOLUTION cfg div (FONTSIZE cfg + 1)))\<rparr>)"
proof -
  define m where "m = FONTSIZE cfg + 1"
  define D where "D = RESOLUTION cfg div m"
  define d where "d = PovDisplayData s"
  define A where "A = map (POV_Font cfg 33) [0..<FONTSIZE cfg] @ [0::u8]"
  define B where "B = map (POV_Font cfg 34) [0..<FONTSIZE cfg] @ [0::u8]"
  define s1 where "s1 = s\<lparr>PovDisplayData := A @ drop m d, PixelPos := of_nat (FONTSIZE cfg),
                           CursPos := 1\<rparr>"
  have lA: "length A = m" by (simp add: A_def m_def)
  have len: "length d = RESOLUTION cfg" using assms(2) by (simp add: frame_ok_def d_def)
  have mpos: "0 < m" by (simp add: m_def)
  have "2 * m \<le> RESOLUTION cfg"
    using assms(4) by (simp add: m_def)
  then have "2 * m div m \<le> RESOLUTION cfg div m"
    by (rule div_le_mono)
  then have D2: "2 \<le> D"
    using mpos by (simp add: D_def)
  then have one: "1 mod D = 1" by simp
  have c0: "cursor_ok cfg s"
    using D2 assms(3) by (simp add: cursor_ok_def D_def m_def)
  have first: "POV_WriteChar cfg 65 s = Some s1"
    unfolding write_char_result [OF assms(1,2) c0] assms(3) s1_def
    using one by (simp add: A_def d_def D_def m_def)
  have f1: "frame_ok cfg s1"
    using assms(4) len lA by (simp add: frame_ok_def s1_def m_def)
  have c1: "cursor_ok cfg s1"
    using D2 by (simp add: cursor_ok_def s1_def D_def m_def)
  have tk: "take m (A @ drop m d) = A" using lA by simp
  have "drop (2 * m) (A @ drop m d) = drop (m + m) d"
    using lA by simp
  also have "m + m = 2 * m"
    by simp
  finally have dr: "drop (2 * m) (A @ drop m d) = drop (2 * m) d" .
  have second: "POV_WriteChar cfg 66 s1 =
    Some (s\<lparr>PovDisplayData := A @ B @ drop (2 * m) d,
             PixelPos := of_nat (2 * FONTSIZE cfg + 1),
             CursPos := of_nat (2 mod D)\<rparr>)"
  proof -
    have u: "unat (CursPos s1) = 1" by (simp add: s1_def)
    have pd: "PovDisplayData s1 = A @ drop m d" by (simp add: s1_def)
    have e1: "1 * (FONTSIZE cfg + 1) = m" by (simp add: m_def)
    have e2: "(1 + 1) * (FONTSIZE cfg + 1) = 2 * m" by (simp add: m_def)
    have e3: "m + FONTSIZE cfg = 2 * FONTSIZE cfg + 1" by (simp add: m_def)
    have e4: "uint (66::u8) - 32 = 34" by simp
    have e5: "(1 + 1) mod (RESOLUTION cfg div (FONTSIZE cfg + 1)) = 2 mod D"
      unfolding D_def m_def by (simp only: one_add_one)
    have "POV_WriteChar cfg 66 s1 =
      Some (s1\<lparr>PovDisplayData := A @ map (POV_Font cfg 34) [0..<FONTSIZE cfg] @ [0] @ drop (2 * m) d,
             PixelPos := of_nat (2 * FONTSIZE cfg + 1),
             CursPos := of_nat (2 mod D)\<rparr>)"
      using write_char_result [OF assms(1) f1 c1, of 66]
      by (simp only: u pd e1 e2 e3 e4 e5 tk dr)
    then show ?thesis
      by (simp add: s1_def B_def)
  qed
  show ?thesis
    using first second by (simp add: A_def B_def d_def D_def m_def)
qed

theorem write_string_AB_witness:
  "config_ok cfg12 \<and> frame_ok cfg12 lit12 \<and> CursPos lit12 = 0 \<and>
   2 * (FONTSIZE cfg12 + 1) \<le> RESOLUTION cfg12 \<and>
   POV_WriteString cfg12 [65, 66, 0] lit12 =
     Some (lit12\<lparr>PovDisplayData := [33, 34, 35, 36, 37, 0, 34, 35, 36, 37, 38, 0],
                  PixelPos := 11, CursPos := 0\<rparr>)"
proof -
  have c: "CursPos lit12 = 0" by (simp add: lit12_def startup_def)
  have r: "2 * (FONTSIZE cfg12 + 1) \<le> RESOLUTION cfg12" by (simp add: cfg12_def)
  note t = write_string_AB [OF cfg12_ok lit12_frame_ok c r]
  show ?thesis
    unfolding t using cfg12_ok lit12_frame_ok c r
    by (simp add: cfg12_def font0_def upt_rec lit12_def startup_def replicate12)
qed

text \<open>
  The claim as stated takes the indices modulo \<open>RESOLUTION\<close>. With 8 columns and a glyph
  of 5 there is one slot: the cursor wraps to slot 0 and \<open>B\<close> is written over \<open>A\<close>, so
  column 0 holds the first column of \<open>B\<close>, and the column at index
  \<open>(2 * FONTSIZE + 1) mod RESOLUTION = 3\<close> is not zero.
\<close>

theorem write_string_AB_single_slot:
  "config_ok cfg8 \<and> CursPos (startup cfg8) = 0 \<and>
   POV_WriteString cfg8 [65, 66, 0] (startup cfg8) =
     Some ((startup cfg8)\<lparr>PovDisplayData := [34, 35, 36, 37, 38, 0, 0, 0],
             PixelPos := 5, CursPos := 0\<rparr>) \<and>
   POV_Font cfg8 33 0 = 33 \<and>
   PovDisplayData (the (POV_WriteString cfg8 [65, 66, 0] (startup cfg8))) ! 0 \<noteq> POV_Font cfg8 33 0 \<and>
   (2 * FONTSIZE cfg8 + 1) mod RESOLUTION cfg8 = 3 \<and>
   PovDisplayData (the (POV_WriteString cfg8 [65, 66, 0] (startup cfg8))) ! 3 \<noteq> 0"
proof -
  have c8: "RESOLUTION cfg8 = 8" "FONTSIZE cfg8 = 5" "POV_Font cfg8 = font0"
    by (simp_all add: cfg8_def)
  have d: "POVDigits cfg8 = 1"
    by (simp add: POVDigits_def cfg8_def)
  have r: "replicate 8 (0::u8) = [0, 0, 0, 0, 0, 0, 0, 0]"
    by (simp add: eval_nat_numeral)
  have l5: "[0..<5] = [0, 1, 2, 3, 4]"
    by (simp add: upt_rec)
  have a: "POV_WriteChar cfg8 65 (startup cfg8) =
      Some ((startup cfg8)\<lparr>PovDisplayData := [33, 34, 35, 36, 37, 0, 0, 0],
              PixelPos := 5, CursPos := 0\<rparr>)"
    by (simp add: POV_WriteChar_def startup_def c8 r l5 d font0_def)
  have b: "POV_WriteChar cfg8 66 ((startup cfg8)\<lparr>PovDisplayData := [33, 34, 35, 36, 37, 0, 0, 0],
              PixelPos := 5, CursPos := 0\<rparr>) =
      Some ((startup cfg8)\<lparr>PovDisplayData := [34, 35, 36, 37, 38, 0, 0, 0],
              PixelPos := 5, CursPos := 0\<rparr>)"
    by (simp add: POV_WriteChar_def startup_def c8 r l5 d font0_def)
  have c: "POV_WriteString cfg8 [65, 66, 0] (startup cfg8) =
     Some ((startup cfg8)\<lparr>PovDisplayData := [34, 35, 36, 37, 38, 0, 0, 0],
             PixelPos := 5, CursPos := 0\<rparr>)"
    by (simp add: a b)
  show ?thesis
    unfolding c using cfg8_ok by (simp add: c8 font0_def startup_def)
qed

section \<open>Lines\<close>

lemma pixels_kept_refl: "pixels_kept s s"
  by (simp add: pixels_kept_def)

lemma pixels_kept_trans: "pixels_kept s t \<Longrightarrow> pixels_kept t u \<Longrightarrow> pixels_kept s u"
  unfolding pixels_kept_def
  by (metis (no_types, lifting) pov.surjective pov.update_convs(5))

lemma or_bit_kept:
  "bit ((d::u8 list) ! c) r \<Longrightarrow> bit (d[i := d ! i OR m] ! c) r"
proof (cases "c = i \<and> i < length d")
  case True
  assume "bit (d ! c) r"
  then show ?thesis using True by (simp add: bit_or_iff)
next
  case False
  assume b: "bit (d ! c) r"
  show ?thesis
  proof (cases "i < length d")
    case True
    then show ?thesis using False b by (simp add: nth_list_update)
  next
    case False
    then show ?thesis using b by (simp add: list_update_beyond)
  qed
qed

lemma pixels_kept_write_on: "pixels_kept s (POV_WritePixel cfg Row Column ON s)"
  by (simp add: pixels_kept_def POV_WritePixel_def ON_def OFF_def or_bit_kept)

lemma int8_t_id: "- 128 \<le> x \<Longrightarrow> x \<le> 127 \<Longrightarrow> int8_t x = x"
  by (simp add: int8_t_def)

lemma int8_t_add_left: "int8_t (int8_t x + y) = int8_t (x + y)"
proof -
  have "(x + 128) mod 256 - 128 + y + 128 = (x + 128) mod 256 + y"
    by simp
  moreover have "((x + 128) mod 256 + y) mod 256 = (x + 128 + y) mod 256"
    by (rule mod_add_left_eq)
  moreover have "x + 128 + y = x + y + 128"
    by simp
  ultimately show ?thesis
    by (simp only: int8_t_def)
qed

lemma u8_step:
  assumes "0 \<le> uint (c::u8) + k" and "uint c + k \<le> 255"
  shows "uint (word_of_int (uint c + k) :: u8) = uint c + k"
proof -
  have "(uint c + k) mod 2 ^ LENGTH(8) = uint c + k"
    using assms by simp
  then show ?thesis
    by (simp only: uint_word_of_int)
qed

lemma remaining_product:
  "0 \<le> (d::int) \<Longrightarrow>
   (a = 0 \<longrightarrow> int a * d = 0) \<and>
   (1 \<le> a \<longrightarrow> d \<le> int a * d \<and> int (a - 1) * d = int a * d - d)"
proof -
  assume d: "0 \<le> d"
  have "d \<le> int a * d" if "1 \<le> a"
    using mult_right_mono [of 1 "int a" d] that d by simp
  moreover have "int (a - 1) * d = int a * d - d" if "1 \<le> a"
    using that by (simp add: of_nat_diff left_diff_distrib)
  ultimately show ?thesis by simp
qed

lemma axis_step:
  assumes "k = 1 \<or> k = - 1" and "uint (T::u8) - uint (c::u8) = k * int a" and "1 \<le> a"
  shows "uint T - uint (word_of_int (uint c + k) :: u8) = k * int (a - 1)"
proof -
  have T: "0 \<le> uint T" "uint T \<le> 255" and c: "0 \<le> uint c" "uint c \<le> 255"
    using uint_lt2p [of T] uint_lt2p [of c] by simp_all
  have a: "int (a - 1) = int a - 1"
    using assms(3) by (simp add: of_nat_diff)
  have a1: "1 \<le> int a"
    using assms(3) by simp
  show ?thesis
  proof (cases "k = 1")
    case True
    then have e: "uint T - uint c = int a"
      using assms(2) by simp
    have "0 \<le> uint c + 1" "uint c + 1 \<le> 255"
      using e T c a1 by linarith+
    then have "uint (word_of_int (uint c + 1) :: u8) = uint c + 1"
      by (rule u8_step)
    then show ?thesis
      using True e a by simp
  next
    case False
    then have k: "k = - 1" using assms(1) by simp
    then have e: "uint T - uint c = - int a"
      using assms(2) by simp
    have "0 \<le> uint c + - 1" "uint c + - 1 \<le> 255"
      using e T c a1 by linarith+
    then have "uint (word_of_int (uint c + - 1) :: u8) = uint c + - 1"
      by (rule u8_step)
    then show ?thesis
      using k e a by simp
  qed
qed

lemma axis_done:
  assumes "k = 1 \<or> k = - 1" and "uint (T::u8) - uint (c::u8) = k * int a"
  shows "c = T \<longleftrightarrow> a = 0"
proof -
  have "c = T \<longleftrightarrow> uint c = uint T"
    by (simp add: word_uint_eq_iff)
  then show ?thesis
    using assms by auto
qed

lemma line_inv_done:
  assumes "line_inv C2 R2 dx sx dy sy c r err a b"
  shows "(r = R2 \<and> c = C2) \<longleftrightarrow> (a = 0 \<and> b = 0)"
proof -
  have "c = C2 \<longleftrightarrow> a = 0"
    using assms unfolding line_inv_def by (intro axis_done [of sx]) simp_all
  moreover have "r = R2 \<longleftrightarrow> b = 0"
    using assms unfolding line_inv_def by (intro axis_done [of sy]) simp_all
  ultimately show ?thesis by blast
qed

lemma line_inv_both:
  assumes inv: "line_inv C2 R2 dx sx dy sy c r err a b"
    and more: "\<not> (a = 0 \<and> b = 0)" and x: "- dx < err" and y: "err < dy"
  shows "1 \<le> a \<and> 1 \<le> b \<and>
    line_inv C2 R2 dx sx dy sy (word_of_int (uint c + sx)) (word_of_int (uint r + sy))
      (int8_t (int8_t (err - dy) + dx)) (a - 1) (b - 1)"
proof -
  define P where "P = int a * dy"
  define Q where "Q = int b * dx"
  have k: "sx = 1 \<or> sx = - 1" "sy = 1 \<or> sy = - 1"
    and d: "0 \<le> dx" "dx \<le> 127" "0 \<le> dy" "dy \<le> 127"
    and ax: "uint C2 - uint c = sx * int a" "uint R2 - uint r = sy * int b"
    and le: "int a \<le> dx" "int b \<le> dy"
    and e: "err = (if dx > dy then dx div 2 else - (dy div 2)) + P - Q"
    and band: "if dx > dy then 0 \<le> err \<and> err < dx else (- dy < err \<or> dy = 0) \<and> err \<le> 0"
    using inv unfolding line_inv_def P_def Q_def by blast+
  have P: "a = 0 \<longrightarrow> P = 0" "1 \<le> a \<longrightarrow> dy \<le> P \<and> int (a - 1) * dy = P - dy"
    using remaining_product [OF d(3), of a] by (simp_all add: P_def)
  have Q: "b = 0 \<longrightarrow> Q = 0" "1 \<le> b \<longrightarrow> dx \<le> Q \<and> int (b - 1) * dx = Q - dx"
    using remaining_product [OF d(1), of b] by (simp_all add: Q_def)
  have a1: "1 \<le> a"
  proof (rule ccontr)
    assume "\<not> 1 \<le> a"
    then have "a = 0" "1 \<le> b" using more by simp_all
    then show False using P Q e band x y d le by (auto split: if_splits)
  qed
  have b1: "1 \<le> b"
  proof (rule ccontr)
    assume "\<not> 1 \<le> b"
    then have "b = 0" "1 \<le> a" using more by simp_all
    then show False using P Q e band x y d le by (auto split: if_splits)
  qed
  have le': "int (a - 1) \<le> dx" "int (b - 1) \<le> dy"
    using le by simp_all
  have r: "- 128 \<le> err - dy + dx" "err - dy + dx \<le> 127"
    using band x y d by (auto split: if_splits)
  have e': "int8_t (int8_t (err - dy) + dx) = err - dy + dx"
    by (simp only: int8_t_add_left int8_t_id [OF r])
  have f: "err - dy + dx =
      (if dx > dy then dx div 2 else - (dy div 2)) + int (a - 1) * dy - int (b - 1) * dx"
    using P Q a1 b1 e by simp
  have band': "if dx > dy then 0 \<le> err - dy + dx \<and> err - dy + dx < dx
               else (- dy < err - dy + dx \<or> dy = 0) \<and> err - dy + dx \<le> 0"
    using band x y by (auto split: if_splits)
  show ?thesis
    unfolding line_inv_def e'
    using a1 b1 k d le' f band' axis_step [OF k(1) ax(1) a1] axis_step [OF k(2) ax(2) b1]
    by simp
qed

lemma line_inv_column:
  assumes inv: "line_inv C2 R2 dx sx dy sy c r err a b"
    and more: "\<not> (a = 0 \<and> b = 0)" and x: "- dx < err" and y: "\<not> err < dy"
  shows "1 \<le> a \<and>
    line_inv C2 R2 dx sx dy sy (word_of_int (uint c + sx)) r (int8_t (err - dy)) (a - 1) b"
proof -
  define P where "P = int a * dy"
  define Q where "Q = int b * dx"
  have k: "sx = 1 \<or> sx = - 1" "sy = 1 \<or> sy = - 1"
    and d: "0 \<le> dx" "dx \<le> 127" "0 \<le> dy" "dy \<le> 127"
    and ax: "uint C2 - uint c = sx * int a" "uint R2 - uint r = sy * int b"
    and le: "int a \<le> dx" "int b \<le> dy"
    and e: "err = (if dx > dy then dx div 2 else - (dy div 2)) + P - Q"
    and band: "if dx > dy then 0 \<le> err \<and> err < dx else (- dy < err \<or> dy = 0) \<and> err \<le> 0"
    using inv unfolding line_inv_def P_def Q_def by blast+
  have P: "a = 0 \<longrightarrow> P = 0" "1 \<le> a \<longrightarrow> dy \<le> P \<and> int (a - 1) * dy = P - dy"
    using remaining_product [OF d(3), of a] by (simp_all add: P_def)
  have Q: "b = 0 \<longrightarrow> Q = 0" "1 \<le> b \<longrightarrow> dx \<le> Q \<and> int (b - 1) * dx = Q - dx"
    using remaining_product [OF d(1), of b] by (simp_all add: Q_def)
  have drv: "dx > dy"
    using band x y d by (auto split: if_splits)
  have a1: "1 \<le> a"
  proof (rule ccontr)
    assume "\<not> 1 \<le> a"
    then have "a = 0" "1 \<le> b" using more by simp_all
    then show False using P Q e band drv d by auto
  qed
  have le': "int (a - 1) \<le> dx"
    using le by simp
  have r: "- 128 \<le> err - dy" "err - dy \<le> 127"
    using band drv y d by auto
  have e': "int8_t (err - dy) = err - dy"
    by (rule int8_t_id [OF r])
  have f: "err - dy = (if dx > dy then dx div 2 else - (dy div 2)) + int (a - 1) * dy - Q"
    using P a1 e by simp
  have band': "if dx > dy then 0 \<le> err - dy \<and> err - dy < dx
               else (- dy < err - dy \<or> dy = 0) \<and> err - dy \<le> 0"
    using band drv y d by auto
  show ?thesis
    unfolding line_inv_def e'
    using a1 k d le le' f band' axis_step [OF k(1) ax(1) a1] ax(2)
    by (simp add: Q_def)
qed

lemma line_inv_row:
  assumes inv: "line_inv C2 R2 dx sx dy sy c r err a b"
    and more: "\<not> (a = 0 \<and> b = 0)" and x: "\<not> - dx < err" and y: "err < dy"
  shows "1 \<le> b \<and>
    line_inv C2 R2 dx sx dy sy c (word_of_int (uint r + sy)) (int8_t (err + dx)) a (b - 1)"
proof -
  define P where "P = int a * dy"
  define Q where "Q = int b * dx"
  have k: "sx = 1 \<or> sx = - 1" "sy = 1 \<or> sy = - 1"
    and d: "0 \<le> dx" "dx \<le> 127" "0 \<le> dy" "dy \<le> 127"
    and ax: "uint C2 - uint c = sx * int a" "uint R2 - uint r = sy * int b"
    and le: "int a \<le> dx" "int b \<le> dy"
    and e: "err = (if dx > dy then dx div 2 else - (dy div 2)) + P - Q"
    and band: "if dx > dy then 0 \<le> err \<and> err < dx else (- dy < err \<or> dy = 0) \<and> err \<le> 0"
    using inv unfolding line_inv_def P_def Q_def by blast+
  have P: "a = 0 \<longrightarrow> P = 0" "1 \<le> a \<longrightarrow> dy \<le> P \<and> int (a - 1) * dy = P - dy"
    using remaining_product [OF d(3), of a] by (simp_all add: P_def)
  have Q: "b = 0 \<longrightarrow> Q = 0" "1 \<le> b \<longrightarrow> dx \<le> Q \<and> int (b - 1) * dx = Q - dx"
    using remaining_product [OF d(1), of b] by (simp_all add: Q_def)
  have drv: "\<not> dx > dy"
    using band x y d by (auto split: if_splits)
  have dy1: "1 \<le> dy"
    using more le d drv by linarith
  have b1: "1 \<le> b"
  proof (rule ccontr)
    assume "\<not> 1 \<le> b"
    then have "b = 0" "1 \<le> a" using more by simp_all
    then show False using P Q e band drv d dy1 by auto
  qed
  have le': "int (b - 1) \<le> dy"
    using le by simp
  have r: "- 128 \<le> err + dx" "err + dx \<le> 127"
    using band drv x d dy1 by auto
  have e': "int8_t (err + dx) = err + dx"
    by (rule int8_t_id [OF r])
  have f: "err + dx = (if dx > dy then dx div 2 else - (dy div 2)) + P - int (b - 1) * dx"
    using Q b1 e by simp
  have band': "if dx > dy then 0 \<le> err + dx \<and> err + dx < dx
               else (- dy < err + dx \<or> dy = 0) \<and> err + dx \<le> 0"
    using band drv x d dy1 by auto
  show ?thesis
    unfolding line_inv_def e'
    using b1 k d le le' f band' axis_step [OF k(2) ax(2) b1] ax(1)
    by (simp add: P_def)
qed

lemma line_inv_moves:
  assumes inv: "line_inv C2 R2 dx sx dy sy c r err a b" and more: "\<not> (a = 0 \<and> b = 0)"
  shows "- dx < err \<or> err < dy"
proof -
  have d: "0 \<le> dx" "0 \<le> dy"
    and le: "int a \<le> dx" "int b \<le> dy"
    and band: "if dx > dy then 0 \<le> err \<and> err < dx else (- dy < err \<or> dy = 0) \<and> err \<le> 0"
    using inv unfolding line_inv_def by blast+
  have "1 \<le> int a \<or> 1 \<le> int b"
    using more by auto
  then show ?thesis
    using d le band by (auto split: if_splits)
qed

text \<open>
  Under the invariant the loop returns, its last action being the plot of the endpoint; no
  pixel is cleared on the way.
\<close>

lemma line_loop_reaches_endpoint:
  "line_inv C2 R2 dx sx dy sy c r err a b \<Longrightarrow>
    \<exists>t. POV_DrawLine_loop cfg C2 R2 dx sx dy sy c r err s = Some (POV_WritePixel cfg R2 C2 ON t)
       \<and> pixels_kept s t"
proof (induction "a + b" arbitrary: a b c r err s rule: less_induct)
  case less
  note inv = less.prems
  let ?s1 = "POV_WritePixel cfg r c ON s"
  have k1: "pixels_kept s ?s1"
    by (rule pixels_kept_write_on)
  show ?case
  proof (cases "a = 0 \<and> b = 0")
    case True
    then have "r = R2 \<and> c = C2"
      using line_inv_done [OF inv] by simp
    then have "POV_DrawLine_loop cfg C2 R2 dx sx dy sy c r err s = Some (POV_WritePixel cfg R2 C2 ON s)"
      by (subst POV_DrawLine_loop.simps) simp
    then show ?thesis
      using pixels_kept_refl by blast
  next
    case False
    then have go: "\<not> (r = R2 \<and> c = C2)"
      using line_inv_done [OF inv] by simp
    consider (both) "- dx < err" "err < dy" | (column) "- dx < err" "\<not> err < dy"
      | (row) "\<not> - dx < err" "err < dy"
      using line_inv_moves [OF inv False] by blast
    then show ?thesis
    proof cases
      case both
      note st = line_inv_both [OF inv False both]
      have "a - 1 + (b - 1) < a + b" using st by simp
      from less.hyps [OF this conjunct2 [OF conjunct2 [OF st]], of ?s1]
      obtain t where t: "POV_DrawLine_loop cfg C2 R2 dx sx dy sy (word_of_int (uint c + sx))
          (word_of_int (uint r + sy)) (int8_t (int8_t (err - dy) + dx)) ?s1 =
          Some (POV_WritePixel cfg R2 C2 ON t)" "pixels_kept ?s1 t"
        by blast
      have "POV_DrawLine_loop cfg C2 R2 dx sx dy sy c r err s = Some (POV_WritePixel cfg R2 C2 ON t)"
        by (subst POV_DrawLine_loop.simps) (simp only: go both t(1) if_False if_True)
      then show ?thesis
        using pixels_kept_trans [OF k1 t(2)] by blast
    next
      case column
      note st = line_inv_column [OF inv False column]
      have "a - 1 + b < a + b" using st by simp
      from less.hyps [OF this conjunct2 [OF st], of ?s1]
      obtain t where t: "POV_DrawLine_loop cfg C2 R2 dx sx dy sy (word_of_int (uint c + sx))
          r (int8_t (err - dy)) ?s1 = Some (POV_WritePixel cfg R2 C2 ON t)" "pixels_kept ?s1 t"
        by blast
      have "POV_DrawLine_loop cfg C2 R2 dx sx dy sy c r err s = Some (POV_WritePixel cfg R2 C2 ON t)"
        by (subst POV_DrawLine_loop.simps) (simp only: go column t(1) if_False if_True)
      then show ?thesis
        using pixels_kept_trans [OF k1 t(2)] by blast
    next
      case row
      note st = line_inv_row [OF inv False row]
      have "a + (b - 1) < a + b" using st by simp
      from less.hyps [OF this conjunct2 [OF st], of ?s1]
      obtain t where t: "POV_DrawLine_loop cfg C2 R2 dx sx dy sy c
          (word_of_int (uint r + sy)) (int8_t (err + dx)) ?s1 =
          Some (POV_WritePixel cfg R2 C2 ON t)" "pixels_kept ?s1 t"
        by blast
      have "POV_DrawLine_loop cfg C2 R2 dx sx dy sy c r err s = Some (POV_WritePixel cfg R2 C2 ON t)"
        by (subst POV_DrawLine_loop.simps) (simp only: go row t(1) if_False if_True)
      then show ?thesis
        using pixels_kept_trans [OF k1 t(2)] by blast
    qed
  qed
qed

lemma diagonal_12:
  "map_option PovDisplayData (POV_DrawLine cfg12 0 0 4 4 (startup cfg12)) =
     Some [1, 2, 4, 8, 16, 0, 0, 0, 0, 0, 0, 0]"
  by (simp add: POV_DrawLine_def POV_DrawLine_loop.simps POV_WritePixel_def ON_def OFF_def
      int8_t_def c_div_def cfg12_def startup_def replicate12)

lemma line_inv_initial:
  assumes "\<bar>uint c2 - uint c1\<bar> \<le> 127" and "\<bar>uint r2 - uint r1\<bar> \<le> 127"
  shows "line_inv c2 r2 (int8_t \<bar>uint c2 - uint c1\<bar>) (if c1 < c2 then 1 else - 1)
           (int8_t \<bar>uint r2 - uint r1\<bar>) (if r1 < r2 then 1 else - 1) c1 r1
           (int8_t (c_div (if int8_t \<bar>uint c2 - uint c1\<bar> > int8_t \<bar>uint r2 - uint r1\<bar>
                           then int8_t \<bar>uint c2 - uint c1\<bar>
                           else - int8_t \<bar>uint r2 - uint r1\<bar>) 2))
           (nat \<bar>uint c2 - uint c1\<bar>) (nat \<bar>uint r2 - uint r1\<bar>)"
proof -
  define dx where "dx = \<bar>uint c2 - uint c1\<bar>"
  define dy where "dy = \<bar>uint r2 - uint r1\<bar>"
  have d: "0 \<le> dx" "dx \<le> 127" "0 \<le> dy" "dy \<le> 127"
    using assms unfolding dx_def dy_def by linarith+
  have ix: "int8_t dx = dx" and iy: "int8_t dy = dy"
    using d by (simp_all add: int8_t_id)
  have sx: "uint c2 - uint c1 = (if c1 < c2 then 1 else - 1) * dx"
    unfolding dx_def by (simp add: word_less_def)
  have sy: "uint r2 - uint r1 = (if r1 < r2 then 1 else - 1) * dy"
    unfolding dy_def by (simp add: word_less_def)
  have e0: "c_div (if dx > dy then dx else - dy) 2 = (if dx > dy then dx div 2 else - (dy div 2))"
    using d by (simp add: c_div_def)
  have h2: "0 \<le> dx div 2" "dx div 2 \<le> 63" "0 \<le> dy div 2" "dy div 2 \<le> 63"
    using d by linarith+
  have h3: "dy div 2 < dy \<or> dy = 0" "dx \<le> dy \<or> dx div 2 < dx"
    using d by linarith+
  have "- 128 \<le> (if dx > dy then dx div 2 else - (dy div 2))"
    "(if dx > dy then dx div 2 else - (dy div 2)) \<le> 127"
    using h2 by (auto split: if_splits)
  then have e: "int8_t (c_div (if dx > dy then dx else - dy) 2) =
      (if dx > dy then dx div 2 else - (dy div 2))"
    unfolding e0 by (rule int8_t_id)
  have band: "if dx > dy then 0 \<le> dx div 2 \<and> dx div 2 < dx
      else (- dy < - (dy div 2) \<or> dy = 0) \<and> - (dy div 2) \<le> 0"
    using h2 h3 by auto
  have n: "int (nat dx) = dx" "int (nat dy) = dy"
    using d by simp_all
  show ?thesis
    unfolding dx_def [symmetric] dy_def [symmetric] ix iy e line_inv_def n
    using d sx sy band h3 by (simp add: mult.commute)
qed

text \<open>
  Whenever the column distance and the row distance of two in-bounds endpoints are both at
  most 127, so that \<open>dx\<close> and \<open>dy\<close> hold the absolute differences, \<open>POV_DrawLine\<close>
  returns, in every configuration: its loop reaches the endpoint \<open>(Column2, Row2)\<close>, which
  is the last pixel it plots, and from the state before the call to the returned one no
  pixel is cleared and nothing but the framebuffer changes. Two instances: the diagonal
  from \<open>(0, 0)\<close> to \<open>(4, 4)\<close> with 12 columns, and the line from column 200, row 0 to
  column 250, row 7 with 255 columns.
\<close>

lemma draw_line_returns:
  assumes "unat Column1 < RESOLUTION cfg" and "unat Row1 < PIXELS cfg"
    and "unat Column2 < RESOLUTION cfg" and "unat Row2 < PIXELS cfg"
    and "\<bar>uint Column2 - uint Column1\<bar> \<le> 127" and "\<bar>uint Row2 - uint Row1\<bar> \<le> 127"
  shows "\<exists>t. POV_DrawLine cfg Column1 Row1 Column2 Row2 s =
               Some (POV_WritePixel cfg Row2 Column2 ON t) \<and>
             pixels_kept s t \<and> pixels_kept s (POV_WritePixel cfg Row2 Column2 ON t)"
proof -
  have run: "POV_DrawLine cfg Column1 Row1 Column2 Row2 s =
      POV_DrawLine_loop cfg Column2 Row2 (int8_t \<bar>uint Column2 - uint Column1\<bar>)
        (if Column1 < Column2 then 1 else - 1)
        (int8_t \<bar>uint Row2 - uint Row1\<bar>) (if Row1 < Row2 then 1 else - 1) Column1 Row1
        (int8_t (c_div (if int8_t \<bar>uint Column2 - uint Column1\<bar> > int8_t \<bar>uint Row2 - uint Row1\<bar>
                        then int8_t \<bar>uint Column2 - uint Column1\<bar>
                        else - int8_t \<bar>uint Row2 - uint Row1\<bar>) 2)) s"
  proof -
    have nb: "\<not> (unat Row1 \<ge> PIXELS cfg \<or> unat Column1 \<ge> RESOLUTION cfg \<or>
                unat Row2 \<ge> PIXELS cfg \<or> unat Column2 \<ge> RESOLUTION cfg)"
      using assms(1-4) by simp
    show ?thesis
      unfolding POV_DrawLine_def Let_def by (simp only: nb if_False)
  qed
  obtain t where t: "POV_DrawLine cfg Column1 Row1 Column2 Row2 s =
      Some (POV_WritePixel cfg Row2 Column2 ON t)" "pixels_kept s t"
    unfolding run using line_loop_reaches_endpoint [OF line_inv_initial [OF assms(5,6)]] by blast
  have "pixels_kept s (POV_WritePixel cfg Row2 Column2 ON t)"
    using pixels_kept_trans [OF t(2) pixels_kept_write_on] .
  then show ?thesis
    using t by blast
qed

lemma draw_line_returns_examples:
  "(\<exists>t. POV_DrawLine cfg12 0 0 4 4 (startup cfg12) = Some (POV_WritePixel cfg12 4 4 ON t) \<and>
        pixels_kept (startup cfg12) t \<and>
        pixels_kept (startup cfg12) (POV_WritePixel cfg12 4 4 ON t)) \<and>
   map_option PovDisplayData (POV_DrawLine cfg12 0 0 4 4 (startup cfg12)) =
     Some [1, 2, 4, 8, 16, 0, 0, 0, 0, 0, 0, 0] \<and>
   (\<exists>t. POV_DrawLine cfg255 200 0 250 7 (startup cfg255) =
          Some (POV_WritePixel cfg255 7 250 ON t) \<and>
        pixels_kept (startup cfg255) t \<and>
        pixels_kept (startup cfg255) (POV_WritePixel cfg255 7 250 ON t))"
proof -
  have a: "\<exists>t. POV_DrawLine cfg12 0 0 4 4 (startup cfg12) = Some (POV_WritePixel cfg12 4 4 ON t) \<and>
        pixels_kept (startup cfg12) t \<and>
        pixels_kept (startup cfg12) (POV_WritePixel cfg12 4 4 ON t)"
    by (rule draw_line_returns) (simp_all add: cfg12_def)
  have b: "\<exists>t. POV_DrawLine cfg255 200 0 250 7 (startup cfg255) =
          Some (POV_WritePixel cfg255 7 250 ON t) \<and>
        pixels_kept (startup cfg255) t \<and>
        pixels_kept (startup cfg255) (POV_WritePixel cfg255 7 250 ON t)"
    by (rule draw_line_returns) (simp_all add: cfg255_def)
  show ?thesis
    using a b diagonal_12 by blast
qed


lemma line_loop_stuck:
  "POV_DrawLine_loop cfg C2 R2 dx sx dy sy c r err s = Some y \<Longrightarrow>
   \<not> (\<not> (r = R2 \<and> c = C2) \<and> \<not> - dx < err \<and> \<not> err < dy)"
proof (erule POV_DrawLine_loop.raw_induct [rotated, where P =
    "\<lambda>cfg C2 R2 dx sx dy sy c r err s y. \<not> (\<not> (r = R2 \<and> c = C2) \<and> \<not> - dx < err \<and> \<not> err < dy)"])
  fix loop :: "config \<Rightarrow> u8 \<Rightarrow> u8 \<Rightarrow> int \<Rightarrow> int \<Rightarrow> int \<Rightarrow> int \<Rightarrow> u8 \<Rightarrow> u8 \<Rightarrow> int \<Rightarrow> pov \<Rightarrow> pov option"
    and cfg C2 R2 dx sx dy sy c r err s y
  assume IH: "\<And>cfg C2 R2 dx sx dy sy c r err s y.
      loop cfg C2 R2 dx sx dy sy c r err s = Some y \<Longrightarrow>
      \<not> (\<not> (r = R2 \<and> c = C2) \<and> \<not> - dx < err \<and> \<not> err < dy)"
  assume eq: "(if r = R2 \<and> c = C2
      then Some (POV_WritePixel cfg r c ON s)
      else if err > - dx
      then (if err < dy
            then loop cfg C2 R2 dx sx dy sy
                   (word_of_int (uint c + sx)) (word_of_int (uint r + sy))
                   (int8_t (int8_t (err - dy) + dx)) (POV_WritePixel cfg r c ON s)
            else loop cfg C2 R2 dx sx dy sy
                   (word_of_int (uint c + sx)) r
                   (int8_t (err - dy)) (POV_WritePixel cfg r c ON s))
      else (if err < dy
            then loop cfg C2 R2 dx sx dy sy
                   c (word_of_int (uint r + sy))
                   (int8_t (err + dx)) (POV_WritePixel cfg r c ON s)
            else loop cfg C2 R2 dx sx dy sy
                   c r err (POV_WritePixel cfg r c ON s))) = Some y"
  show "\<not> (\<not> (r = R2 \<and> c = C2) \<and> \<not> - dx < err \<and> \<not> err < dy)"
  proof
    assume st: "\<not> (r = R2 \<and> c = C2) \<and> \<not> - dx < err \<and> \<not> err < dy"
    then have "loop cfg C2 R2 dx sx dy sy c r err (POV_WritePixel cfg r c ON s) = Some y"
      using eq by (simp split: if_splits)
    from IH [OF this] st show False by blast
  qed
qed

text \<open>
  C6 does not hold of the code. The claim has \<open>POV_DrawLine\<close> return for every pair of
  in-bounds endpoints. The source declares \<open>int8_t dx = abs(Column2 - Column1)\<close> and
  describes \<open>dx\<close> as the absolute difference in column positions, but a difference above 127
  does not fit an \<open>int8_t\<close>. In the configuration with 255 columns and 8 rows, both
  endpoints of the line from column 0 to column 200 of row 0 are in bounds; the absolute
  difference is 200 and \<open>dx\<close> holds \<open>-56\<close>, \<open>dy = 0\<close> and \<open>err = 0\<close>, so neither
  \<open>e2 > -dx\<close> nor \<open>e2 < dy\<close> holds: no iteration moves, the loop never reaches the
  endpoint and \<open>POV_DrawLine\<close> never returns.
\<close>

theorem draw_line_never_returns:
  "config_ok cfg255 \<and> unat (0::u8) < PIXELS cfg255 \<and> unat (0::u8) < RESOLUTION cfg255 \<and>
   unat (200::u8) < RESOLUTION cfg255 \<and>
   \<bar>uint (200::u8) - uint (0::u8)\<bar> = 200 \<and>
   int8_t \<bar>uint (200::u8) - uint (0::u8)\<bar> = - 56 \<and>
   POV_DrawLine cfg255 0 0 200 0 (startup cfg255) = None"
proof -
  have dx: "int8_t \<bar>uint (200::u8) - uint (0::u8)\<bar> = - 56"
    by (simp add: int8_t_def)
  have run: "POV_DrawLine cfg255 0 0 200 0 (startup cfg255) =
      POV_DrawLine_loop cfg255 200 0 (- 56) 1 0 (- 1) 0 0 0 (startup cfg255)"
    by (simp add: POV_DrawLine_def Let_def cfg255_def int8_t_def c_div_def)
  have "POV_DrawLine_loop cfg255 200 0 (- 56) 1 0 (- 1) 0 0 0 (startup cfg255) \<noteq> Some y" for y
    using line_loop_stuck [of cfg255 200 0 "- 56" 1 0 "- 1" 0 0 0 "startup cfg255" y] by auto
  then have "POV_DrawLine cfg255 0 0 200 0 (startup cfg255) = None"
    unfolding run by (cases "POV_DrawLine_loop cfg255 200 0 (- 56) 1 0 (- 1) 0 0 0 (startup cfg255)") auto
  then show ?thesis
    using dx cfg255_ok by (simp add: cfg255_def)
qed

end
